theory Spec2Isabelle
  imports Complex_Main "HOL-Library.Word"
begin

unbundle bit_operations_syntax

section \<open>The machine model\<close>

text \<open>
  The embedding is of \<^verbatim>\<open>media/base/yuv_scale.cc\<close>. Samples and channel bytes are
  \<^verbatim>\<open>uint8\<close>, a packed pixel is a \<^verbatim>\<open>uint32\<close>. The C \<^verbatim>\<open>int\<close> and \<^verbatim>\<open>int32\<close>
  quantities (widths, pitches, fixed-point positions, colour terms) are HOL integers:
  signed overflow is undefined in C, and no product of the code leaves 32 bits while
  the widths, heights and pitches stay below \<open>2^27\<close> in magnitude and the frame below
  \<open>2^31\<close> bytes, which is the range the embedding describes.

  A pointer is an address (an integer). Memory is a partial map from addresses to
  bytes: an address outside its domain belongs to no buffer, and reading or writing
  it, which is undefined behaviour in C, is a fault of the model.
\<close>

type_synonym u8 = "8 word"
type_synonym u32 = "32 word"
type_synonym mem = "int \<Rightarrow> u8 option"

datatype fault =
    DivisionByZero
  | ReadOutOfBounds
  | ClipIndexOutOfRange
  | WriteOutOfBounds
  | DCheckFailed

text \<open>Sequencing of steps that may fault: the first fault ends the call.\<close>

definition and_then :: "fault + 'a \<Rightarrow> ('a \<Rightarrow> fault + 'b) \<Rightarrow> fault + 'b" where
  "and_then r k = (case r of Inl f \<Rightarrow> Inl f | Inr x \<Rightarrow> k x)"

text \<open>
  C's \<^verbatim>\<open>/\<close> on \<^verbatim>\<open>int\<close> truncates towards zero, where HOL's \<open>div\<close> rounds down.
  The divisor is checked for zero where the code can divide by zero.
\<close>

definition cdiv :: "int \<Rightarrow> int \<Rightarrow> int" where
  "cdiv a b = sgn a * sgn b * (\<bar>a\<bar> div \<bar>b\<bar>)"

text \<open>
  C's \<^verbatim>\<open>>>\<close> on a negative \<^verbatim>\<open>int\<close> is the arithmetic shift on every compiler the
  code was built with: \<open>drop_bit n\<close> on HOL integers, which rounds down. \<^verbatim>\<open>&\<close> is
  \<open>AND\<close> on the two's complement reading, which HOL's integers have.
\<close>

definition rd :: "mem \<Rightarrow> int \<Rightarrow> fault + u8" where
  "rd m a = (case m a of None \<Rightarrow> Inl ReadOutOfBounds | Some b \<Rightarrow> Inr b)"

section \<open>The saturation table and \<^verbatim>\<open>clip\<close>\<close>

definition kClipTableSize :: int where
  "kClipTableSize = 256"

definition kClipOverflow :: int where
  "kClipOverflow = 128"

definition g_rgb_clip_table :: "u8 list" where
  "g_rgb_clip_table = [
     0x00, 0x00, 0x00, 0x00, 0x00, 0x00, 0x00, 0x00,
     0x00, 0x00, 0x00, 0x00, 0x00, 0x00, 0x00, 0x00,
     0x00, 0x00, 0x00, 0x00, 0x00, 0x00, 0x00, 0x00,
     0x00, 0x00, 0x00, 0x00, 0x00, 0x00, 0x00, 0x00,
     0x00, 0x00, 0x00, 0x00, 0x00, 0x00, 0x00, 0x00,
     0x00, 0x00, 0x00, 0x00, 0x00, 0x00, 0x00, 0x00,
     0x00, 0x00, 0x00, 0x00, 0x00, 0x00, 0x00, 0x00,
     0x00, 0x00, 0x00, 0x00, 0x00, 0x00, 0x00, 0x00,
     0x00, 0x00, 0x00, 0x00, 0x00, 0x00, 0x00, 0x00,
     0x00, 0x00, 0x00, 0x00, 0x00, 0x00, 0x00, 0x00,
     0x00, 0x00, 0x00, 0x00, 0x00, 0x00, 0x00, 0x00,
     0x00, 0x00, 0x00, 0x00, 0x00, 0x00, 0x00, 0x00,
     0x00, 0x00, 0x00, 0x00, 0x00, 0x00, 0x00, 0x00,
     0x00, 0x00, 0x00, 0x00, 0x00, 0x00, 0x00, 0x00,
     0x00, 0x00, 0x00, 0x00, 0x00, 0x00, 0x00, 0x00,
     0x00, 0x00, 0x00, 0x00, 0x00, 0x00, 0x00, 0x00,
     0x00, 0x01, 0x02, 0x03, 0x04, 0x05, 0x06, 0x07,
     0x08, 0x09, 0x0A, 0x0B, 0x0C, 0x0D, 0x0E, 0x0F,
     0x10, 0x11, 0x12, 0x13, 0x14, 0x15, 0x16, 0x17,
     0x18, 0x19, 0x1A, 0x1B, 0x1C, 0x1D, 0x1E, 0x1F,
     0x20, 0x21, 0x22, 0x23, 0x24, 0x25, 0x26, 0x27,
     0x28, 0x29, 0x2A, 0x2B, 0x2C, 0x2D, 0x2E, 0x2F,
     0x30, 0x31, 0x32, 0x33, 0x34, 0x35, 0x36, 0x37,
     0x38, 0x39, 0x3A, 0x3B, 0x3C, 0x3D, 0x3E, 0x3F,
     0x40, 0x41, 0x42, 0x43, 0x44, 0x45, 0x46, 0x47,
     0x48, 0x49, 0x4A, 0x4B, 0x4C, 0x4D, 0x4E, 0x4F,
     0x50, 0x51, 0x52, 0x53, 0x54, 0x55, 0x56, 0x57,
     0x58, 0x59, 0x5A, 0x5B, 0x5C, 0x5D, 0x5E, 0x5F,
     0x60, 0x61, 0x62, 0x63, 0x64, 0x65, 0x66, 0x67,
     0x68, 0x69, 0x6A, 0x6B, 0x6C, 0x6D, 0x6E, 0x6F,
     0x70, 0x71, 0x72, 0x73, 0x74, 0x75, 0x76, 0x77,
     0x78, 0x79, 0x7A, 0x7B, 0x7C, 0x7D, 0x7E, 0x7F,
     0x80, 0x81, 0x82, 0x83, 0x84, 0x85, 0x86, 0x87,
     0x88, 0x89, 0x8A, 0x8B, 0x8C, 0x8D, 0x8E, 0x8F,
     0x90, 0x91, 0x92, 0x93, 0x94, 0x95, 0x96, 0x97,
     0x98, 0x99, 0x9A, 0x9B, 0x9C, 0x9D, 0x9E, 0x9F,
     0xA0, 0xA1, 0xA2, 0xA3, 0xA4, 0xA5, 0xA6, 0xA7,
     0xA8, 0xA9, 0xAA, 0xAB, 0xAC, 0xAD, 0xAE, 0xAF,
     0xB0, 0xB1, 0xB2, 0xB3, 0xB4, 0xB5, 0xB6, 0xB7,
     0xB8, 0xB9, 0xBA, 0xBB, 0xBC, 0xBD, 0xBE, 0xBF,
     0xC0, 0xC1, 0xC2, 0xC3, 0xC4, 0xC5, 0xC6, 0xC7,
     0xC8, 0xC9, 0xCA, 0xCB, 0xCC, 0xCD, 0xCE, 0xCF,
     0xD0, 0xD1, 0xD2, 0xD3, 0xD4, 0xD5, 0xD6, 0xD7,
     0xD8, 0xD9, 0xDA, 0xDB, 0xDC, 0xDD, 0xDE, 0xDF,
     0xE0, 0xE1, 0xE2, 0xE3, 0xE4, 0xE5, 0xE6, 0xE7,
     0xE8, 0xE9, 0xEA, 0xEB, 0xEC, 0xED, 0xEE, 0xEF,
     0xF0, 0xF1, 0xF2, 0xF3, 0xF4, 0xF5, 0xF6, 0xF7,
     0xF8, 0xF9, 0xFA, 0xFB, 0xFC, 0xFD, 0xFE, 0xFF,
     0xFF, 0xFF, 0xFF, 0xFF, 0xFF, 0xFF, 0xFF, 0xFF,
     0xFF, 0xFF, 0xFF, 0xFF, 0xFF, 0xFF, 0xFF, 0xFF,
     0xFF, 0xFF, 0xFF, 0xFF, 0xFF, 0xFF, 0xFF, 0xFF,
     0xFF, 0xFF, 0xFF, 0xFF, 0xFF, 0xFF, 0xFF, 0xFF,
     0xFF, 0xFF, 0xFF, 0xFF, 0xFF, 0xFF, 0xFF, 0xFF,
     0xFF, 0xFF, 0xFF, 0xFF, 0xFF, 0xFF, 0xFF, 0xFF,
     0xFF, 0xFF, 0xFF, 0xFF, 0xFF, 0xFF, 0xFF, 0xFF,
     0xFF, 0xFF, 0xFF, 0xFF, 0xFF, 0xFF, 0xFF, 0xFF,
     0xFF, 0xFF, 0xFF, 0xFF, 0xFF, 0xFF, 0xFF, 0xFF,
     0xFF, 0xFF, 0xFF, 0xFF, 0xFF, 0xFF, 0xFF, 0xFF,
     0xFF, 0xFF, 0xFF, 0xFF, 0xFF, 0xFF, 0xFF, 0xFF,
     0xFF, 0xFF, 0xFF, 0xFF, 0xFF, 0xFF, 0xFF, 0xFF,
     0xFF, 0xFF, 0xFF, 0xFF, 0xFF, 0xFF, 0xFF, 0xFF,
     0xFF, 0xFF, 0xFF, 0xFF, 0xFF, 0xFF, 0xFF, 0xFF,
     0xFF, 0xFF, 0xFF, 0xFF, 0xFF, 0xFF, 0xFF, 0xFF,
     0xFF, 0xFF, 0xFF, 0xFF, 0xFF, 0xFF, 0xFF, 0xFF
   ]"

text \<open>
  \<^verbatim>\<open>clip\<close> (lines 236 to 241) indexes the table with no check (its two DCHECKs are
  commented out): an index outside the \<open>kClipOverflow + kClipTableSize + kClipOverflow\<close>
  entries reads outside the array, which is the fault \<open>ClipIndexOutOfRange\<close>.
\<close>

definition clip :: "int \<Rightarrow> fault + u32" where
  "clip v =
     (let i = drop_bit 8 v + kClipOverflow
      in if 0 \<le> i \<and> i < kClipOverflow + kClipTableSize + kClipOverflow
         then Inr (ucast (g_rgb_clip_table ! nat i))
         else Inl ClipIndexOutOfRange)"

section \<open>Loads, stores and loops\<close>

text \<open>
  \<^verbatim>\<open>*reinterpret_cast<uint32*>(rgb_buf) = p\<close> stores the four bytes of \<open>p\<close>, lowest
  first (the code's targets are little-endian). All four addresses must belong to a
  buffer.
\<close>

definition store32 :: "mem \<Rightarrow> int \<Rightarrow> u32 \<Rightarrow> fault + mem" where
  "store32 m a w =
     (if m a \<noteq> None \<and> m (a + 1) \<noteq> None \<and> m (a + 2) \<noteq> None \<and> m (a + 3) \<noteq> None
      then Inr (m(a \<mapsto> ucast w,
                  a + 1 \<mapsto> ucast (drop_bit 8 w),
                  a + 2 \<mapsto> ucast (drop_bit 16 w),
                  a + 3 \<mapsto> ucast (drop_bit 24 w)))
      else Inl WriteOutOfBounds)"

text \<open>
  \<^verbatim>\<open>for (int x = 0; x < n; ++x) body\<close>, started at \<open>x\<close>: the body takes the counter and
  the state the loop carries, and a fault in the body ends the loop.
\<close>

function for_loop :: "(int \<Rightarrow> 's \<Rightarrow> fault + 's) \<Rightarrow> int \<Rightarrow> int \<Rightarrow> 's \<Rightarrow> fault + 's" where
  "for_loop body x n s =
     (if x < n
      then (case body x s of Inl f \<Rightarrow> Inl f | Inr s' \<Rightarrow> for_loop body (x + 1) n s')
      else Inr s)"
  by pat_completeness auto
termination
  by (relation "measure (\<lambda>(body, x, n, s). nat (n - x))") auto

declare for_loop.simps [simp del]

section \<open>The row converters\<close>

text \<open>
  The body of the loop of \<^verbatim>\<open>ScaleYV12ToRGB32Row\<close> up to the pixel it stores (lines
  257 to 287). \<open>y0\<close> is a \<^verbatim>\<open>uint8\<close>: the blended value is converted back to a byte.
\<close>

definition ScaleRow_pixel :: "mem \<Rightarrow> int \<Rightarrow> int \<Rightarrow> int \<Rightarrow> int \<Rightarrow> fault + u32" where
  "ScaleRow_pixel m y_buf u_buf v_buf scaled_x =
     and_then (rd m (u_buf + drop_bit 5 scaled_x)) (\<lambda>u.
     and_then (rd m (v_buf + drop_bit 5 scaled_x)) (\<lambda>v.
     let d = uint u - 128;
         e = uint v - 128;
         cb = 516 * d + 128;
         cg = - 100 * d - 208 * e + 128;
         cr = 409 * e + 128
     in
     and_then (rd m (y_buf + drop_bit 4 scaled_x)) (\<lambda>y0.
     and_then (rd m (y_buf + (drop_bit 4 scaled_x + 1))) (\<lambda>y1.
     let sel = drop_bit 2 (scaled_x AND 15);
         y0 = (if sel = 1 then word_of_int (drop_bit 2 (uint y0 + uint y0 + uint y0 + uint y1))
               else if sel = 2 then word_of_int (drop_bit 1 (uint y0 + uint y1))
               else if sel = 3 then word_of_int (drop_bit 2 (uint y0 + uint y1 + uint y1 + uint y1))
               else y0);
         C298a = (uint y0 - 16) * 298 + 128
     in
     and_then (clip (C298a + cb)) (\<lambda>b.
     and_then (clip (C298a + cg)) (\<lambda>g.
     and_then (clip (C298a + cr)) (\<lambda>r.
     Inr (b OR push_bit 8 g OR push_bit 16 r OR 0xff000000))))))))"

text \<open>
  One turn of the loop: the pixel is stored at \<open>rgb_buf\<close>, then \<^verbatim>\<open>rgb_buf += 4\<close> and
  \<^verbatim>\<open>scaled_x += scaled_dx\<close>. The loop carries the memory and these two variables.
\<close>

definition ScaleRow_step ::
  "int \<Rightarrow> int \<Rightarrow> int \<Rightarrow> int \<Rightarrow> int \<Rightarrow> mem \<times> int \<times> int \<Rightarrow> fault + mem \<times> int \<times> int" where
  "ScaleRow_step y_buf u_buf v_buf scaled_dx x s =
     (case s of (m, rgb_buf, scaled_x) \<Rightarrow>
        and_then (ScaleRow_pixel m y_buf u_buf v_buf scaled_x) (\<lambda>p.
        and_then (store32 m rgb_buf p) (\<lambda>m'.
        Inr (m', rgb_buf + 4, scaled_x + scaled_dx))))"

definition ScaleYV12ToRGB32Row ::
  "mem \<Rightarrow> int \<Rightarrow> int \<Rightarrow> int \<Rightarrow> int \<Rightarrow> int \<Rightarrow> int \<Rightarrow> fault + mem" where
  "ScaleYV12ToRGB32Row m y_buf u_buf v_buf rgb_buf width scaled_width =
     (if scaled_width = 0 then Inl DivisionByZero
      else
        let scaled_dx = cdiv (width * 16) scaled_width
        in and_then
             (for_loop (ScaleRow_step y_buf u_buf v_buf scaled_dx) 0 scaled_width (m, rgb_buf, 0))
             (\<lambda>s. Inr (fst s)))"

text \<open>The same for \<^verbatim>\<open>HalfYV12ToRGB32Row\<close> (lines 295 to 320).\<close>

definition HalfRow_pixel :: "mem \<Rightarrow> int \<Rightarrow> int \<Rightarrow> int \<Rightarrow> int \<Rightarrow> fault + u32" where
  "HalfRow_pixel m y_buf u_buf v_buf x =
     and_then (rd m (u_buf + x)) (\<lambda>u.
     and_then (rd m (v_buf + x)) (\<lambda>v.
     let d = uint u - 128;
         e = uint v - 128;
         cb = 516 * d + 128;
         cg = - 100 * d - 208 * e + 128;
         cr = 409 * e + 128
     in
     and_then (rd m (y_buf + (x * 2 + 0))) (\<lambda>y0.
     and_then (rd m (y_buf + (x * 2 + 1))) (\<lambda>y1.
     let C298a = (drop_bit 1 (uint y0 + uint y1) - 16) * 298 + 128
     in
     and_then (clip (C298a + cb)) (\<lambda>b.
     and_then (clip (C298a + cg)) (\<lambda>g.
     and_then (clip (C298a + cr)) (\<lambda>r.
     Inr (b OR push_bit 8 g OR push_bit 16 r OR 0xff000000))))))))"

definition HalfRow_step ::
  "int \<Rightarrow> int \<Rightarrow> int \<Rightarrow> int \<Rightarrow> mem \<times> int \<Rightarrow> fault + mem \<times> int" where
  "HalfRow_step y_buf u_buf v_buf x s =
     (case s of (m, rgb_buf) \<Rightarrow>
        and_then (HalfRow_pixel m y_buf u_buf v_buf x) (\<lambda>p.
        and_then (store32 m rgb_buf p) (\<lambda>m'.
        Inr (m', rgb_buf + 4))))"

definition HalfYV12ToRGB32Row ::
  "mem \<Rightarrow> int \<Rightarrow> int \<Rightarrow> int \<Rightarrow> int \<Rightarrow> int \<Rightarrow> fault + mem" where
  "HalfYV12ToRGB32Row m y_buf u_buf v_buf rgb_buf width =
     and_then
       (for_loop (HalfRow_step y_buf u_buf v_buf) 0 width (m, rgb_buf))
       (\<lambda>s. Inr (fst s))"

section \<open>The frame scalers\<close>

text \<open>
  Modelled from the spec: the enumeration \<^verbatim>\<open>Rotate\<close> is declared in
  \<^verbatim>\<open>media/base/yuv_scale.h\<close>, which is not among the sources; section 3 of the
  specification lists its eight values.
\<close>

datatype Rotate =
    ROTATE_0
  | ROTATE_90
  | ROTATE_180
  | ROTATE_270
  | MIRROR_ROTATE_0
  | MIRROR_ROTATE_90
  | MIRROR_ROTATE_180
  | MIRROR_ROTATE_270

text \<open>The three tests on \<^verbatim>\<open>view_rotate\<close> (lines 51 to 54, 61 to 64 and 71 to 74).\<close>

definition starts_right :: "Rotate \<Rightarrow> bool" where
  "starts_right view_rotate \<longleftrightarrow>
     view_rotate = ROTATE_180 \<or> view_rotate = ROTATE_270 \<or>
     view_rotate = MIRROR_ROTATE_0 \<or> view_rotate = MIRROR_ROTATE_90"

definition starts_bottom :: "Rotate \<Rightarrow> bool" where
  "starts_bottom view_rotate \<longleftrightarrow>
     view_rotate = ROTATE_90 \<or> view_rotate = ROTATE_180 \<or>
     view_rotate = MIRROR_ROTATE_90 \<or> view_rotate = MIRROR_ROTATE_180"

definition implemented :: "Rotate \<Rightarrow> bool" where
  "implemented view_rotate \<longleftrightarrow>
     view_rotate = ROTATE_0 \<or> view_rotate = ROTATE_180 \<or>
     view_rotate = MIRROR_ROTATE_0 \<or> view_rotate = MIRROR_ROTATE_180"

text \<open>
  \<^verbatim>\<open>ConvertYV12ToRGB32Row\<close> is declared \<^verbatim>\<open>extern "C"\<close> and defined outside the
  sources: the 4:2:0 scaler takes it as a parameter, a function of the memory and of
  its five arguments.
\<close>

type_synonym row_conv = "mem \<Rightarrow> int \<Rightarrow> int \<Rightarrow> int \<Rightarrow> int \<Rightarrow> int \<Rightarrow> fault + mem"

text \<open>The choice of the row converter (lines 87 to 96, and 148 to 154).\<close>

definition YV12_dispatch ::
  "row_conv \<Rightarrow> mem \<Rightarrow> int \<Rightarrow> int \<Rightarrow> int \<Rightarrow> int \<Rightarrow> int \<Rightarrow> int \<Rightarrow> fault + mem" where
  "YV12_dispatch ConvertYV12ToRGB32Row m y_ptr u_ptr v_ptr dest_pixel width scaled_width =
     (if scaled_width = width
      then ConvertYV12ToRGB32Row m y_ptr u_ptr v_ptr dest_pixel scaled_width
      else if scaled_width = cdiv width 2
      then HalfYV12ToRGB32Row m y_ptr u_ptr v_ptr dest_pixel scaled_width
      else ScaleYV12ToRGB32Row m y_ptr u_ptr v_ptr dest_pixel width scaled_width)"

definition YV16_dispatch ::
  "mem \<Rightarrow> int \<Rightarrow> int \<Rightarrow> int \<Rightarrow> int \<Rightarrow> int \<Rightarrow> int \<Rightarrow> fault + mem" where
  "YV16_dispatch m y_ptr u_ptr v_ptr dest_pixel width scaled_width =
     (if scaled_width = cdiv width 2
      then HalfYV12ToRGB32Row m y_ptr u_ptr v_ptr dest_pixel scaled_width
      else ScaleYV12ToRGB32Row m y_ptr u_ptr v_ptr dest_pixel width scaled_width)"

text \<open>The body of the loop over the destination rows (lines 80 to 96, and 142 to 154).\<close>

definition YV12_row ::
  "row_conv \<Rightarrow> int \<Rightarrow> int \<Rightarrow> int \<Rightarrow> int \<Rightarrow> int \<Rightarrow> int \<Rightarrow> int \<Rightarrow> int \<Rightarrow> int \<Rightarrow> int \<Rightarrow> int \<Rightarrow>
   int \<Rightarrow> mem \<Rightarrow> fault + mem" where
  "YV12_row conv y_buf u_buf v_buf rgb_buf width height scaled_width scaled_height
     y_pitch uv_pitch rgb_pitch y m =
     (let dest_pixel = rgb_buf + y * rgb_pitch;
          scaled_y = cdiv (y * height) scaled_height;
          y_ptr = y_buf + scaled_y * y_pitch;
          u_ptr = u_buf + cdiv scaled_y 2 * uv_pitch;
          v_ptr = v_buf + cdiv scaled_y 2 * uv_pitch
      in YV12_dispatch conv m y_ptr u_ptr v_ptr dest_pixel width scaled_width)"

definition YV16_row ::
  "int \<Rightarrow> int \<Rightarrow> int \<Rightarrow> int \<Rightarrow> int \<Rightarrow> int \<Rightarrow> int \<Rightarrow> int \<Rightarrow> int \<Rightarrow> int \<Rightarrow> int \<Rightarrow>
   int \<Rightarrow> mem \<Rightarrow> fault + mem" where
  "YV16_row y_buf u_buf v_buf rgb_buf width height scaled_width scaled_height
     y_pitch uv_pitch rgb_pitch y m =
     (let dest_pixel = rgb_buf + y * rgb_pitch;
          scaled_y = cdiv (y * height) scaled_height;
          y_ptr = y_buf + scaled_y * y_pitch;
          u_ptr = u_buf + scaled_y * uv_pitch;
          v_ptr = v_buf + scaled_y * uv_pitch
      in YV16_dispatch m y_ptr u_ptr v_ptr dest_pixel width scaled_width)"

text \<open>
  The two entry points. \<open>debug\<close> says whether \<^verbatim>\<open>_DEBUG\<close> is defined: without it line
  14 makes \<^verbatim>\<open>DCHECK\<close> expand to nothing; with it the macro is that of
  \<^verbatim>\<open>base/logging.h\<close> (not among the sources), which reports a fatal error and ends
  the process when its condition is false: the fault \<open>DCheckFailed\<close>. The rows are
  converted in order (the OpenMP pragma is left out).
\<close>

definition ScaleYV12ToRGB32 ::
  "bool \<Rightarrow> row_conv \<Rightarrow> mem \<Rightarrow> int \<Rightarrow> int \<Rightarrow> int \<Rightarrow> int \<Rightarrow> int \<Rightarrow> int \<Rightarrow> int \<Rightarrow> int \<Rightarrow>
   int \<Rightarrow> int \<Rightarrow> int \<Rightarrow> Rotate \<Rightarrow> fault + mem" where
  "ScaleYV12ToRGB32 debug conv m y_buf u_buf v_buf rgb_buf width height scaled_width
     scaled_height y_pitch uv_pitch rgb_pitch view_rotate =
     (let (y_buf, u_buf, v_buf, width) =
            (if starts_right view_rotate
             then (y_buf + (width - 1), u_buf + (cdiv width 2 - 1),
                   v_buf + (cdiv width 2 - 1), - width)
             else (y_buf, u_buf, v_buf, width));
          (y_buf, u_buf, v_buf, height) =
            (if starts_bottom view_rotate
             then (y_buf + (height - 1) * y_pitch, u_buf + (cdiv height 2 - 1) * uv_pitch,
                   v_buf + (cdiv height 2 - 1) * uv_pitch, - height)
             else (y_buf, u_buf, v_buf, height))
      in if debug \<and> \<not> implemented view_rotate then Inl DCheckFailed
         else for_loop
                (YV12_row conv y_buf u_buf v_buf rgb_buf width height scaled_width
                   scaled_height y_pitch uv_pitch rgb_pitch)
                0 scaled_height m)"

definition ScaleYV16ToRGB32 ::
  "bool \<Rightarrow> mem \<Rightarrow> int \<Rightarrow> int \<Rightarrow> int \<Rightarrow> int \<Rightarrow> int \<Rightarrow> int \<Rightarrow> int \<Rightarrow> int \<Rightarrow>
   int \<Rightarrow> int \<Rightarrow> int \<Rightarrow> Rotate \<Rightarrow> fault + mem" where
  "ScaleYV16ToRGB32 debug m y_buf u_buf v_buf rgb_buf width height scaled_width
     scaled_height y_pitch uv_pitch rgb_pitch view_rotate =
     (let (y_buf, u_buf, v_buf, width) =
            (if starts_right view_rotate
             then (y_buf + (width - 1), u_buf + (cdiv width 2 - 1),
                   v_buf + (cdiv width 2 - 1), - width)
             else (y_buf, u_buf, v_buf, width));
          (y_buf, u_buf, v_buf, height) =
            (if starts_bottom view_rotate
             then (y_buf + (height - 1) * y_pitch, u_buf + (height - 1) * uv_pitch,
                   v_buf + (height - 1) * uv_pitch, - height)
             else (y_buf, u_buf, v_buf, height))
      in if debug \<and> \<not> implemented view_rotate then Inl DCheckFailed
         else for_loop
                (YV16_row y_buf u_buf v_buf rgb_buf width height scaled_width
                   scaled_height y_pitch uv_pitch rgb_pitch)
                0 scaled_height m)"

section \<open>Buffers of concrete calls\<close>

text \<open>A buffer of the bytes \<open>bs\<close> at the address \<open>base\<close>, and nothing else.\<close>

definition buffer :: "int \<Rightarrow> u8 list \<Rightarrow> mem" where
  "buffer base bs a =
     (if base \<le> a \<and> a < base + int (length bs) then Some (bs ! nat (a - base)) else None)"

text \<open>The \<open>n\<close> bytes at the address \<open>a\<close> after a call, or the call's fault.\<close>

definition dump :: "int \<Rightarrow> nat \<Rightarrow> fault + mem \<Rightarrow> fault + u8 option list" where
  "dump a n r =
     (case r of Inl f \<Rightarrow> Inl f | Inr m \<Rightarrow> Inr (map (\<lambda>i. m (a + int i)) [0..<n]))"

text \<open>
  Modelled from the spec: \<^verbatim>\<open>ConvertYV12ToRGB32Row\<close> is defined outside the sources.
  Section 4.4 of the specification describes the identity-ratio path as the general row
  converter with equal widths (step 16, no blending). It stands for the parameter of
  the 4:2:0 scaler in concrete calls only.
\<close>

definition spec_ConvertYV12ToRGB32Row :: row_conv where
  "spec_ConvertYV12ToRGB32Row m y_buf u_buf v_buf rgb_buf width =
     ScaleYV12ToRGB32Row m y_buf u_buf v_buf rgb_buf width width"

section \<open>The specification's wording\<close>

text \<open>
  The contract of the saturation table as the specification words it (section 4.1):
  the channel byte is \<open>clamp(round(v/256), 0, 255)\<close>.
\<close>

definition spec_clip :: "int \<Rightarrow> int" where
  "spec_clip v = max 0 (min 255 (round (real_of_int v / 256)))"

text \<open>
  The four blend weights of the general row converter as the specification words them
  (section 4.2): the bit pattern 0 gives 100/0 percent of the current and the next
  luma sample, 1 gives 75/25, 2 gives 50/50 and 3 gives 25/75, in integer arithmetic.
\<close>

definition spec_blend :: "int \<Rightarrow> int \<Rightarrow> int \<Rightarrow> int" where
  "spec_blend pattern y0 y1 =
     (if pattern = 0 then y0
      else if pattern = 1 then (3 * y0 + y1) div 4
      else if pattern = 2 then (y0 + y1) div 2
      else (y0 + 3 * y1) div 4)"

text \<open>
  The layout of a pixel as the specification words it: \<open>B\<close> in bits 0 to 7, \<open>G\<close> in
  bits 8 to 15, \<open>R\<close> in bits 16 to 23, and the alpha byte 255.
\<close>

definition spec_packed :: "u32 \<Rightarrow> u32 \<Rightarrow> u32 \<Rightarrow> u32 \<Rightarrow> bool" where
  "spec_packed p B G R \<longleftrightarrow>
     take_bit 8 p = B \<and> take_bit 8 (drop_bit 8 p) = G \<and>
     take_bit 8 (drop_bit 16 p) = R \<and> drop_bit 24 p = 255"

text \<open>
  The colour transform of section 4.2, from a luma value and the two chroma samples
  to the pixel \<open>p\<close>: every channel is \<^verbatim>\<open>clip\<close> of the luma term plus its chroma term.
\<close>

definition spec_pixel :: "int \<Rightarrow> int \<Rightarrow> int \<Rightarrow> u32 \<Rightarrow> bool" where
  "spec_pixel luma U V p \<longleftrightarrow>
     (let d = U - 128;
          e = V - 128;
          cb = 516 * d + 128;
          cg = - 100 * d - 208 * e + 128;
          cr = 409 * e + 128;
          Y' = (luma - 16) * 298 + 128
      in \<exists>R G B. clip (Y' + cr) = Inr R \<and> clip (Y' + cg) = Inr G \<and> clip (Y' + cb) = Inr B \<and>
           spec_packed p B G R)"

text \<open>
  The source position of the destination column \<open>x\<close> as the specification words it:
  \<open>x\<close> times the floor of \<open>width * 16 / scaled_width\<close>.
\<close>

definition spec_position :: "int \<Rightarrow> int \<Rightarrow> int \<Rightarrow> int" where
  "spec_position width scaled_width x = x * (width * 16 div scaled_width)"

section \<open>Notions of the proofs\<close>

text \<open>The fault of a call, if it ended in one.\<close>

definition fault_of :: "fault + 'a \<Rightarrow> fault option" where
  "fault_of r = (case r of Inl f \<Rightarrow> Some f | Inr x \<Rightarrow> None)"

text \<open>
  The memory holds the pixel \<open>w\<close> at the address \<open>a\<close>: the four bytes of a stored
  \<^verbatim>\<open>uint32\<close>.
\<close>

definition stored32 :: "mem \<Rightarrow> int \<Rightarrow> u32 \<Rightarrow> bool" where
  "stored32 m a w \<longleftrightarrow>
     m a = Some (ucast w) \<and> m (a + 1) = Some (ucast (drop_bit 8 w)) \<and>
     m (a + 2) = Some (ucast (drop_bit 16 w)) \<and> m (a + 3) = Some (ucast (drop_bit 24 w))"

definition write_step :: "(mem \<Rightarrow> int \<Rightarrow> fault + u32) \<Rightarrow> int \<Rightarrow> mem \<times> int \<Rightarrow> fault + mem \<times> int" where
  "write_step px x s =
     (case s of (m, rgb_buf) \<Rightarrow>
        and_then (px m x) (\<lambda>p.
        and_then (store32 m rgb_buf p) (\<lambda>m'.
        Inr (m', rgb_buf + 4))))"

definition write_row :: "(mem \<Rightarrow> int \<Rightarrow> fault + u32) \<Rightarrow> mem \<Rightarrow> int \<Rightarrow> int \<Rightarrow> fault + mem" where
  "write_row px m rgb_buf n =
     and_then (for_loop (write_step px) 0 n (m, rgb_buf)) (\<lambda>s. Inr (fst s))"

text \<open>The state of the row loop after the columns before \<open>k\<close>.\<close>

definition row_inv :: "mem \<Rightarrow> int \<Rightarrow> int \<Rightarrow> mem \<times> int \<Rightarrow> bool" where
  "row_inv m rgb k s \<longleftrightarrow>
     snd s = rgb + 4 * k \<and>
     (\<forall>a. a < rgb \<or> rgb + 4 * k \<le> a \<longrightarrow> fst s a = m a) \<and>
     (\<forall>a. (fst s a = None) = (m a = None)) \<and>
     (\<forall>a. rgb \<le> a \<and> a < rgb + 4 * k \<longrightarrow> m a \<noteq> None)"

definition reads_within :: "(mem \<Rightarrow> int \<Rightarrow> fault + u32) \<Rightarrow> (int \<Rightarrow> int set) \<Rightarrow> bool" where
  "reads_within px rds \<longleftrightarrow> (\<forall>m1 m2 k. (\<forall>a \<in> rds k. m1 a = m2 a) \<longrightarrow> px m1 k = px m2 k)"

definition pixels_inv ::
  "(mem \<Rightarrow> int \<Rightarrow> fault + u32) \<Rightarrow> mem \<Rightarrow> int \<Rightarrow> int \<Rightarrow> mem \<times> int \<Rightarrow> bool" where
  "pixels_inv px m rgb k s \<longleftrightarrow>
     row_inv m rgb k s \<and>
     (\<forall>j. 0 \<le> j \<and> j < k \<longrightarrow> (\<exists>p. px m j = Inr p \<and> stored32 (fst s) (rgb + 4 * j) p))"

text \<open>
  What a row converter does to the memory: \<open>m'\<close> is \<open>m\<close> outside the \<open>n\<close> bytes at \<open>d\<close>,
  the same addresses belong to buffers before and after, and the \<open>n\<close> bytes at \<open>d\<close>
  belong to one.
\<close>

definition wrote_within :: "mem \<Rightarrow> mem \<Rightarrow> int \<Rightarrow> int \<Rightarrow> bool" where
  "wrote_within m m' d n \<longleftrightarrow>
     (\<forall>a. (a < d \<or> d + n \<le> a \<longrightarrow> m' a = m a) \<and>
          ((m' a = None) = (m a = None)) \<and>
          (d \<le> a \<and> a < d + n \<longrightarrow> m a \<noteq> None))"

text \<open>
  The assumption on \<^verbatim>\<open>ConvertYV12ToRGB32Row\<close>, whose code is not among the sources:
  it writes the \<open>4 * width\<close> bytes of its destination row and nothing else.
\<close>

definition row_writer :: "row_conv \<Rightarrow> bool" where
  "row_writer conv \<longleftrightarrow>
     (\<forall>m y_buf u_buf v_buf rgb_buf width m'.
        conv m y_buf u_buf v_buf rgb_buf width = Inr m' \<longrightarrow>
        wrote_within m m' rgb_buf (4 * width))"

text \<open>The memory after the destination rows before \<open>k\<close>.\<close>

definition rows_inv :: "mem \<Rightarrow> int \<Rightarrow> int \<Rightarrow> int \<Rightarrow> int \<Rightarrow> mem \<Rightarrow> bool" where
  "rows_inv m rgb_buf rgb_pitch scaled_width k mk \<longleftrightarrow>
     (\<forall>a. (\<forall>y. 0 \<le> y \<and> y < k \<longrightarrow>
               a < rgb_buf + y * rgb_pitch \<or> rgb_buf + y * rgb_pitch + 4 * scaled_width \<le> a)
          \<longrightarrow> mk a = m a) \<and>
     (\<forall>a. (mk a = None) = (m a = None)) \<and>
     (\<forall>y a. 0 \<le> y \<and> y < k \<and> rgb_buf + y * rgb_pitch \<le> a \<and>
            a < rgb_buf + y * rgb_pitch + 4 * scaled_width \<longrightarrow> m a \<noteq> None)"

text \<open>
  The addresses one turn of each row loop reads, and what the theorems on the output of
  a row converter ask of a call: that no byte of the destination row is among the
  addresses the converter reads for that row.
\<close>

definition ScaleRow_reads :: "int \<Rightarrow> int \<Rightarrow> int \<Rightarrow> int \<Rightarrow> int set" where
  "ScaleRow_reads y_buf u_buf v_buf scaled_x =
     {u_buf + drop_bit 5 scaled_x, v_buf + drop_bit 5 scaled_x,
      y_buf + drop_bit 4 scaled_x, y_buf + (drop_bit 4 scaled_x + 1)}"

definition HalfRow_reads :: "int \<Rightarrow> int \<Rightarrow> int \<Rightarrow> int \<Rightarrow> int set" where
  "HalfRow_reads y_buf u_buf v_buf x =
     {u_buf + x, v_buf + x, y_buf + (x * 2 + 0), y_buf + (x * 2 + 1)}"

definition ScaleRow_apart :: "int \<Rightarrow> int \<Rightarrow> int \<Rightarrow> int \<Rightarrow> int \<Rightarrow> int \<Rightarrow> bool" where
  "ScaleRow_apart y_buf u_buf v_buf rgb_buf width scaled_width \<longleftrightarrow>
     (\<forall>x. 0 \<le> x \<and> x < scaled_width \<longrightarrow>
        ScaleRow_reads y_buf u_buf v_buf (x * cdiv (width * 16) scaled_width) \<inter>
          {rgb_buf ..< rgb_buf + 4 * scaled_width} = {})"

definition HalfRow_apart :: "int \<Rightarrow> int \<Rightarrow> int \<Rightarrow> int \<Rightarrow> int \<Rightarrow> bool" where
  "HalfRow_apart y_buf u_buf v_buf rgb_buf width \<longleftrightarrow>
     (\<forall>x. 0 \<le> x \<and> x < width \<longrightarrow>
        HalfRow_reads y_buf u_buf v_buf x \<inter> {rgb_buf ..< rgb_buf + 4 * width} = {})"

text \<open>
  The value of \<^verbatim>\<open>scaled_x\<close> at the column \<open>x\<close>: it starts at 0 and every turn of the loop
  adds \<^verbatim>\<open>scaled_dx\<close>.
\<close>

definition ScaleRow_position :: "int \<Rightarrow> int \<Rightarrow> int \<Rightarrow> int" where
  "ScaleRow_position width scaled_width x = x * cdiv (width * 16) scaled_width"


section \<open>The saturation table\<close>

lemma g_rgb_clip_table_layout:
  "g_rgb_clip_table = replicate 128 0 @ map word_of_nat [0..<256] @ replicate 128 255"
  by code_simp

lemma g_rgb_clip_table_nth:
  "i < 512 \<Longrightarrow>
   g_rgb_clip_table ! i =
     (if i < 128 then 0 else if i < 384 then word_of_nat (i - 128) else 255)"
  by (auto simp: g_rgb_clip_table_layout nth_append)

lemma ucast_u8_u32_of_int:
  assumes "0 \<le> q" "q < 256"
  shows "(ucast (word_of_int q :: u8) :: u32) = word_of_int q"
proof -
  have "uint (word_of_int q :: u8) = q"
    using assms by (simp only: uint_word_of_int) simp
  then show ?thesis by (simp only: ucast_eq)
qed

lemma clip_in_range:
  assumes "- 128 * 256 \<le> v" "v < 384 * 256"
  shows "clip v = Inr (ucast (g_rgb_clip_table ! nat (v div 256 + 128)))"
proof -
  have "- 128 \<le> v div 256" "v div 256 < 384"
    using assms by linarith+
  then show ?thesis
    by (simp add: clip_def kClipOverflow_def kClipTableSize_def Let_def drop_bit_eq_div)
qed

lemma clip_out_of_range:
  assumes "v < - 128 * 256 \<or> 384 * 256 \<le> v"
  shows "clip v = Inl ClipIndexOutOfRange"
proof -
  have "v div 256 < - 128 \<or> 384 \<le> v div 256"
    using assms by linarith
  then show ?thesis
    by (auto simp: clip_def kClipOverflow_def kClipTableSize_def Let_def drop_bit_eq_div)
qed

lemma clip_floor:
  assumes "- 128 * 256 \<le> v" "v < 384 * 256"
  shows "clip v = Inr (word_of_int (max 0 (min 255 (v div 256))))"
proof -
  define q where "q = v div 256"
  have a: "- 128 \<le> q" and b: "q < 384"
    using assms unfolding q_def by linarith+
  have n: "nat (q + 128) < 512"
    using a b by simp
  have "ucast (g_rgb_clip_table ! nat (q + 128)) = (word_of_int (max 0 (min 255 q)) :: u32)"
  proof -
    consider "q < 0" | "0 \<le> q" "q < 256" | "256 \<le> q"
      by linarith
    then show ?thesis
    proof cases
      case 1
      then have "nat (q + 128) < 128"
        using a by simp
      moreover have "max 0 (min 255 q) = 0"
        using 1 by simp
      ultimately show ?thesis
        by (simp add: g_rgb_clip_table_nth [OF n])
    next
      case 2
      then have h: "\<not> nat (q + 128) < 128" "nat (q + 128) < 384" "nat (q + 128) - 128 = nat q"
        by simp_all
      have "(word_of_nat (nat q) :: u8) = word_of_int q"
        using 2 by (simp only: word_of_int_nat)
      moreover have "max 0 (min 255 q) = q"
        using 2 by simp
      ultimately show ?thesis
        using 2 h by (simp add: g_rgb_clip_table_nth [OF n] ucast_u8_u32_of_int)
    next
      case 3
      then have h: "\<not> nat (q + 128) < 128" "\<not> nat (q + 128) < 384"
        by simp_all
      have "max 0 (min 255 q) = 255"
        using 3 by simp
      then show ?thesis
        using h by (simp add: g_rgb_clip_table_nth [OF n])
    qed
  qed
  then show ?thesis
    using clip_in_range [OF assms] by (simp add: q_def)
qed

section \<open>Loops\<close>

lemma for_loop_step:
  "x < n \<Longrightarrow> for_loop body x n s =
     (case body x s of Inl f \<Rightarrow> Inl f | Inr s' \<Rightarrow> for_loop body (x + 1) n s')"
  by (subst for_loop.simps) simp

lemma for_loop_done: "\<not> x < n \<Longrightarrow> for_loop body x n s = Inr s"
  by (subst for_loop.simps) simp


lemma for_loop_invariant:
  assumes "for_loop body x n s = Inr s'"
    and "I x s"
    and "\<And>k t t'. x \<le> k \<Longrightarrow> k < n \<Longrightarrow> I k t \<Longrightarrow> body k t = Inr t' \<Longrightarrow> I (k + 1) t'"
  shows "I (max x n) s'"
  using assms
proof (induction body x n s rule: for_loop.induct)
  case (1 body x n s)
  show ?case
  proof (cases "x < n")
    case True
    then obtain t where t: "body x s = Inr t" and rest: "for_loop body (x + 1) n t = Inr s'"
      using "1.prems"(1) by (auto simp: for_loop_step split: sum.splits)
    have "I (x + 1) t"
      using "1.prems"(3) [of x s t] True t "1.prems"(2) by simp
    then have "I (max (x + 1) n) s'"
      using "1.IH" [OF True t rest] "1.prems"(3) by simp
    then show ?thesis
      using True by (simp add: max_def)
  next
    case False
    then show ?thesis
      using "1.prems" by (simp add: for_loop_done max_def)
  qed
qed

lemma for_loop_lockstep:
  assumes "R x s t"
    and "\<And>k s t. x \<le> k \<Longrightarrow> k < n \<Longrightarrow> R k s t \<Longrightarrow> rel_sum (=) (R (k + 1)) (b1 k s) (b2 k t)"
  shows "rel_sum (=) (R (max x n)) (for_loop b1 x n s) (for_loop b2 x n t)"
  using assms
proof (induction b1 x n s arbitrary: t rule: for_loop.induct)
  case (1 body x n s)
  show ?case
  proof (cases "x < n")
    case True
    have r: "rel_sum (=) (R (x + 1)) (body x s) (b2 x t)"
      using "1.prems"(2) [of x s t] True "1.prems"(1) by simp
    show ?thesis
    proof (cases "body x s")
      case (Inl f)
      then have "b2 x t = Inl f"
        using r by (cases "b2 x t") auto
      then show ?thesis
        using True Inl by (simp add: for_loop_step)
    next
      case (Inr s1)
      then obtain t1 where t1: "b2 x t = Inr t1" and R1: "R (x + 1) s1 t1"
        using r by (cases "b2 x t") auto
      have "rel_sum (=) (R (max (x + 1) n)) (for_loop body (x + 1) n s1) (for_loop b2 (x + 1) n t1)"
        using "1.IH" [OF True Inr R1] "1.prems"(2) by simp
      then show ?thesis
        using True Inr t1 by (simp add: for_loop_step max_def)
    qed
  next
    case False
    then show ?thesis
      using "1.prems"(1) by (simp add: for_loop_done max_def)
  qed
qed


section \<open>Stores and rows of pixels\<close>

lemma eq_Inl_fault_of: "(r = Inl f) = (fault_of r = Some f)"
  by (cases r) (auto simp: fault_of_def)

lemma and_then_Inr_iff:
  "and_then r k = Inr y \<longleftrightarrow> (\<exists>x. r = Inr x \<and> k x = Inr y)"
  by (cases r) (auto simp: and_then_def)

lemma store32_other:
  "store32 m a w = Inr m' \<Longrightarrow> b < a \<or> a + 4 \<le> b \<Longrightarrow> m' b = m b"
  by (auto simp: store32_def split: if_splits)

lemma store32_stored:
  "store32 m a w = Inr m' \<Longrightarrow> stored32 m' a w"
  by (auto simp: store32_def stored32_def split: if_splits)

lemma store32_mapped:
  "store32 m a w = Inr m' \<Longrightarrow> (m' b = None) = (m b = None)"
  by (auto simp: store32_def split: if_splits)

lemma store32_needs:
  "store32 m a w = Inr m' \<Longrightarrow> a \<le> b \<Longrightarrow> b < a + 4 \<Longrightarrow> m b \<noteq> None"
proof -
  assume s: "store32 m a w = Inr m'" and "a \<le> b" "b < a + 4"
  then have "b = a \<or> b = a + 1 \<or> b = a + 2 \<or> b = a + 3"
    by linarith
  then show ?thesis
    using s by (auto simp: store32_def split: if_splits)
qed

lemma stored32_cong:
  "stored32 m a w \<Longrightarrow> (\<And>b. a \<le> b \<Longrightarrow> b < a + 4 \<Longrightarrow> m' b = m b) \<Longrightarrow> stored32 m' a w"
  by (simp add: stored32_def)

lemma write_step_Inr:
  "write_step px k (m, r) = Inr t \<longleftrightarrow>
     (\<exists>p m'. px m k = Inr p \<and> store32 m r p = Inr m' \<and> t = (m', r + 4))"
  by (auto simp: write_step_def and_then_Inr_iff)

lemma row_inv_step:
  assumes "row_inv m rgb k s" "0 \<le> k" "write_step px k s = Inr t"
  shows "row_inv m rgb (k + 1) t"
proof -
  obtain mk r where s: "s = (mk, r)" by (cases s)
  obtain p m' where p: "px mk k = Inr p" and st: "store32 mk r p = Inr m'" and t: "t = (m', r + 4)"
    using assms(3) unfolding s write_step_Inr by blast
  have r: "r = rgb + 4 * k"
    using assms(1) s by (simp add: row_inv_def)
  have a1: "\<forall>a. a < rgb \<or> rgb + 4 * (k + 1) \<le> a \<longrightarrow> m' a = m a"
  proof (intro allI impI)
    fix a assume a: "a < rgb \<or> rgb + 4 * (k + 1) \<le> a"
    then have "a < r \<or> r + 4 \<le> a" using r assms(2) by auto
    then have "m' a = mk a" using store32_other [OF st] by simp
    moreover have "mk a = m a" using assms(1) s a assms(2) by (auto simp: row_inv_def)
    ultimately show "m' a = m a" by simp
  qed
  have a2: "\<forall>a. (m' a = None) = (m a = None)"
    using store32_mapped [OF st] assms(1) s by (simp add: row_inv_def)
  have a3: "\<forall>a. rgb \<le> a \<and> a < rgb + 4 * (k + 1) \<longrightarrow> m a \<noteq> None"
  proof (intro allI impI)
    fix a assume a: "rgb \<le> a \<and> a < rgb + 4 * (k + 1)"
    show "m a \<noteq> None"
    proof (cases "a < rgb + 4 * k")
      case True
      then show ?thesis using assms(1) a by (simp add: row_inv_def)
    next
      case False
      then have "r \<le> a" "a < r + 4" using a r by auto
      then have "mk a \<noteq> None" using store32_needs [OF st] by simp
      moreover have "(mk a = None) = (m a = None)"
        using assms(1) s by (simp add: row_inv_def)
      ultimately show ?thesis by simp
    qed
  qed
  show ?thesis
    using a1 a2 a3 r t by (simp add: row_inv_def)
qed

lemma write_row_inv:
  assumes "write_row px m rgb n = Inr m'" "0 \<le> n"
  shows "row_inv m rgb n (m', rgb + 4 * n)"
proof -
  obtain s' where l: "for_loop (write_step px) 0 n (m, rgb) = Inr s'" and m': "m' = fst s'"
    using assms(1) by (auto simp: write_row_def and_then_Inr_iff)
  have "row_inv m rgb 0 (m, rgb)"
    by (auto simp: row_inv_def)
  moreover have "\<And>k t t'. 0 \<le> k \<Longrightarrow> k < n \<Longrightarrow> row_inv m rgb k t \<Longrightarrow>
      write_step px k t = Inr t' \<Longrightarrow> row_inv m rgb (k + 1) t'"
    using row_inv_step by blast
  ultimately have "row_inv m rgb (max 0 n) s'"
    by (rule for_loop_invariant [OF l, where I = "row_inv m rgb"])
  then show ?thesis
    using m' assms(2) by (cases s') (simp add: row_inv_def max_def)
qed

lemma write_row_nothing: "n \<le> 0 \<Longrightarrow> write_row px m rgb n = Inr m"
  by (simp add: write_row_def for_loop_done and_then_def)

lemma write_row_frame:
  assumes "write_row px m rgb n = Inr m'" "a < rgb \<or> rgb + 4 * n \<le> a"
  shows "m' a = m a"
proof (cases "0 \<le> n")
  case True
  then show ?thesis
    using write_row_inv [OF assms(1) True] assms(2) by (auto simp: row_inv_def)
next
  case False
  then show ?thesis
    using assms(1) by (simp add: write_row_nothing)
qed

lemma write_row_mapped:
  assumes "write_row px m rgb n = Inr m'"
  shows "(m' a = None) = (m a = None)"
proof (cases "0 \<le> n")
  case True
  then show ?thesis
    using write_row_inv [OF assms(1) True] by (simp add: row_inv_def)
next
  case False
  then show ?thesis
    using assms(1) by (simp add: write_row_nothing)
qed

lemma write_row_needs:
  assumes "write_row px m rgb n = Inr m'" "rgb \<le> a" "a < rgb + 4 * n"
  shows "m a \<noteq> None"
proof -
  have "0 \<le> n" using assms(2,3) by linarith
  then show ?thesis
    using write_row_inv [OF assms(1)] assms(2,3) by (auto simp: row_inv_def)
qed


lemma reads_within_row_inv:
  assumes "reads_within px rds" "row_inv m rgb k s" "0 \<le> k" "k < n"
    and "rds k \<inter> {rgb ..< rgb + 4 * n} = {}"
  shows "px (fst s) k = px m k"
proof -
  have "\<forall>a \<in> rds k. fst s a = m a"
  proof
    fix a assume "a \<in> rds k"
    then have "a \<notin> {rgb ..< rgb + 4 * n}" using assms(5) by blast
    then have "a < rgb \<or> rgb + 4 * k \<le> a" using assms(4) by auto
    then show "fst s a = m a" using assms(2) by (auto simp: row_inv_def)
  qed
  then show ?thesis
    using assms(1) unfolding reads_within_def by blast
qed

lemma pixels_inv_step:
  assumes loc: "reads_within px rds"
    and apart: "\<forall>k. 0 \<le> k \<and> k < n \<longrightarrow> rds k \<inter> {rgb ..< rgb + 4 * n} = {}"
    and inv: "pixels_inv px m rgb k s" and k: "0 \<le> k" "k < n"
    and step: "write_step px k s = Inr t"
  shows "pixels_inv px m rgb (k + 1) t"
proof -
  obtain mk r where s: "s = (mk, r)" by (cases s)
  obtain p m' where p: "px mk k = Inr p" and st: "store32 mk r p = Inr m'" and t: "t = (m', r + 4)"
    using step unfolding s write_step_Inr by blast
  have ri: "row_inv m rgb k s"
    using inv by (simp add: pixels_inv_def)
  have r: "r = rgb + 4 * k"
    using ri s by (simp add: row_inv_def)
  have "px (fst s) k = px m k"
    using reads_within_row_inv [OF loc ri k] apart k by simp
  then have pm: "px m k = Inr p"
    using p s by simp
  have new: "stored32 m' (rgb + 4 * k) p"
    using store32_stored [OF st] r by simp
  have old: "\<exists>q. px m j = Inr q \<and> stored32 m' (rgb + 4 * j) q" if j: "0 \<le> j" "j < k" for j
  proof -
    obtain q where q: "px m j = Inr q" "stored32 mk (rgb + 4 * j) q"
      using inv j s by (auto simp: pixels_inv_def)
    have "m' b = mk b" if "rgb + 4 * j \<le> b" "b < rgb + 4 * j + 4" for b
      using store32_other [OF st, of b] that j r by simp
    then have "stored32 m' (rgb + 4 * j) q"
      using stored32_cong [OF q(2)] by simp
    then show ?thesis using q(1) by blast
  qed
  have "\<exists>q. px m j = Inr q \<and> stored32 m' (rgb + 4 * j) q" if j: "0 \<le> j" "j < k + 1" for j
  proof (cases "j = k")
    case True
    then show ?thesis using pm new by blast
  next
    case False
    then show ?thesis using old [of j] j by simp
  qed
  moreover have "row_inv m rgb (k + 1) t"
    using row_inv_step [OF ri k(1) step] .
  ultimately show ?thesis
    using t by (simp add: pixels_inv_def)
qed

lemma write_row_pixels:
  assumes loc: "reads_within px rds"
    and apart: "\<forall>k. 0 \<le> k \<and> k < n \<longrightarrow> rds k \<inter> {rgb ..< rgb + 4 * n} = {}"
    and run: "write_row px m rgb n = Inr m'"
    and x: "0 \<le> x" "x < n"
  shows "\<exists>p. px m x = Inr p \<and> stored32 m' (rgb + 4 * x) p"
proof -
  obtain s' where l: "for_loop (write_step px) 0 n (m, rgb) = Inr s'" and m': "m' = fst s'"
    using run by (auto simp: write_row_def and_then_Inr_iff)
  have "pixels_inv px m rgb 0 (m, rgb)"
    by (auto simp: pixels_inv_def row_inv_def)
  moreover have "\<And>k t t'. 0 \<le> k \<Longrightarrow> k < n \<Longrightarrow> pixels_inv px m rgb k t \<Longrightarrow>
      write_step px k t = Inr t' \<Longrightarrow> pixels_inv px m rgb (k + 1) t'"
    using pixels_inv_step [OF loc apart] by blast
  ultimately have "pixels_inv px m rgb (max 0 n) s'"
    by (rule for_loop_invariant [OF l, where I = "pixels_inv px m rgb"])
  then show ?thesis
    using x m' by (auto simp: pixels_inv_def max_def)
qed


text \<open>The two row converters as instances.\<close>

lemma HalfYV12ToRGB32Row_write_row:
  "HalfYV12ToRGB32Row m y_buf u_buf v_buf rgb_buf width =
     write_row (\<lambda>m x. HalfRow_pixel m y_buf u_buf v_buf x) m rgb_buf width"
proof -
  have "HalfRow_step y_buf u_buf v_buf = write_step (\<lambda>m x. HalfRow_pixel m y_buf u_buf v_buf x)"
    by (intro ext) (simp add: HalfRow_step_def write_step_def)
  then show ?thesis
    by (simp add: HalfYV12ToRGB32Row_def write_row_def)
qed

lemma ScaleRow_loop_write_step:
  "rel_sum (=) (\<lambda>s t. fst s = fst t)
     (for_loop (ScaleRow_step y_buf u_buf v_buf dx) 0 n (m, rgb, 0))
     (for_loop (write_step (\<lambda>m x. ScaleRow_pixel m y_buf u_buf v_buf (x * dx))) 0 n (m, rgb))"
proof -
  define R where
    "R = (\<lambda>k (s :: mem \<times> int \<times> int) (t :: mem \<times> int). fst s = fst t \<and> fst (snd s) = snd t \<and> snd (snd s) = k * dx)"
  have R0: "R 0 (m, rgb, 0) (m, rgb)"
    by (simp add: R_def)
  have step: "rel_sum (=) (R (k + 1)) (ScaleRow_step y_buf u_buf v_buf dx k s)
       (write_step (\<lambda>m x. ScaleRow_pixel m y_buf u_buf v_buf (x * dx)) k t)"
    if "R k s t" for k s t
  proof -
    obtain m1 r1 sx where s: "s = (m1, r1, sx)" by (cases s)
    obtain m2 r2 where t: "t = (m2, r2)" by (cases t)
    have e: "m1 = m2" "r1 = r2" "sx = k * dx"
      using that s t by (simp_all add: R_def)
    show ?thesis
      unfolding s t e ScaleRow_step_def write_step_def
      by (cases "ScaleRow_pixel m2 y_buf u_buf v_buf (k * dx)";
          cases "store32 m2 r2 (projr (ScaleRow_pixel m2 y_buf u_buf v_buf (k * dx)))")
         (auto simp: and_then_def R_def algebra_simps)
  qed
  have "rel_sum (=) (R (max 0 n)) (for_loop (ScaleRow_step y_buf u_buf v_buf dx) 0 n (m, rgb, 0))
     (for_loop (write_step (\<lambda>m x. ScaleRow_pixel m y_buf u_buf v_buf (x * dx))) 0 n (m, rgb))"
    using for_loop_lockstep [of R 0 "(m, rgb, 0)" "(m, rgb)" n
        "ScaleRow_step y_buf u_buf v_buf dx"
        "write_step (\<lambda>m x. ScaleRow_pixel m y_buf u_buf v_buf (x * dx))"] R0 step
    by blast
  then show ?thesis
    by (rule sum.rel_mono_strong) (auto simp: R_def)
qed

lemma ScaleYV12ToRGB32Row_write_row:
  "ScaleYV12ToRGB32Row m y_buf u_buf v_buf rgb_buf width scaled_width =
     (if scaled_width = 0 then Inl DivisionByZero
      else write_row (\<lambda>m x. ScaleRow_pixel m y_buf u_buf v_buf (x * cdiv (width * 16) scaled_width))
             m rgb_buf scaled_width)"
  using ScaleRow_loop_write_step [of y_buf u_buf v_buf "cdiv (width * 16) scaled_width" scaled_width m rgb_buf]
  by (cases "for_loop (ScaleRow_step y_buf u_buf v_buf (cdiv (width * 16) scaled_width)) 0 scaled_width (m, rgb_buf, 0)";
      cases "for_loop (write_step (\<lambda>m x. ScaleRow_pixel m y_buf u_buf v_buf (x * cdiv (width * 16) scaled_width))) 0 scaled_width (m, rgb_buf)")
     (auto simp: ScaleYV12ToRGB32Row_def write_row_def and_then_def Let_def)


section \<open>Rows of a frame\<close>

lemma wrote_within_outside:
  "wrote_within m m' d n \<Longrightarrow> a < d \<or> d + n \<le> a \<Longrightarrow> m' a = m a"
  by (auto simp: wrote_within_def)

lemma wrote_within_mapped:
  "wrote_within m m' d n \<Longrightarrow> (m' a = None) = (m a = None)"
  by (auto simp: wrote_within_def)

lemma wrote_within_inside:
  "wrote_within m m' d n \<Longrightarrow> d \<le> a \<Longrightarrow> a < d + n \<Longrightarrow> m a \<noteq> None"
  by (auto simp: wrote_within_def)

lemma rows_inv_outside:
  "rows_inv m rgb_buf rgb_pitch scaled_width k mk \<Longrightarrow>
   \<forall>y. 0 \<le> y \<and> y < k \<longrightarrow>
     a < rgb_buf + y * rgb_pitch \<or> rgb_buf + y * rgb_pitch + 4 * scaled_width \<le> a \<Longrightarrow>
   mk a = m a"
  unfolding rows_inv_def by blast

lemma rows_inv_mapped:
  "rows_inv m rgb_buf rgb_pitch scaled_width k mk \<Longrightarrow> (mk a = None) = (m a = None)"
  unfolding rows_inv_def by blast

lemma rows_inv_inside:
  "rows_inv m rgb_buf rgb_pitch scaled_width k mk \<Longrightarrow> 0 \<le> y \<Longrightarrow> y < k \<Longrightarrow>
   rgb_buf + y * rgb_pitch \<le> a \<Longrightarrow> a < rgb_buf + y * rgb_pitch + 4 * scaled_width \<Longrightarrow>
   m a \<noteq> None"
  unfolding rows_inv_def by blast

lemma write_row_wrote_within:
  assumes "write_row px m rgb n = Inr m'"
  shows "wrote_within m m' rgb (4 * n)"
  using write_row_frame [OF assms] write_row_mapped [OF assms] write_row_needs [OF assms]
  by (auto simp: wrote_within_def)

lemma HalfYV12ToRGB32Row_wrote_within:
  "HalfYV12ToRGB32Row m y_buf u_buf v_buf rgb_buf width = Inr m' \<Longrightarrow>
   wrote_within m m' rgb_buf (4 * width)"
  by (simp add: HalfYV12ToRGB32Row_write_row write_row_wrote_within)

lemma ScaleYV12ToRGB32Row_wrote_within:
  "ScaleYV12ToRGB32Row m y_buf u_buf v_buf rgb_buf width scaled_width = Inr m' \<Longrightarrow>
   wrote_within m m' rgb_buf (4 * scaled_width)"
  by (simp add: ScaleYV12ToRGB32Row_write_row write_row_wrote_within split: if_splits)

lemma YV16_dispatch_wrote_within:
  "YV16_dispatch m y_ptr u_ptr v_ptr dest_pixel width scaled_width = Inr m' \<Longrightarrow>
   wrote_within m m' dest_pixel (4 * scaled_width)"
  by (auto simp: YV16_dispatch_def HalfYV12ToRGB32Row_wrote_within
      ScaleYV12ToRGB32Row_wrote_within split: if_splits)

lemma YV12_dispatch_wrote_within:
  "row_writer conv \<Longrightarrow>
   YV12_dispatch conv m y_ptr u_ptr v_ptr dest_pixel width scaled_width = Inr m' \<Longrightarrow>
   wrote_within m m' dest_pixel (4 * scaled_width)"
  by (auto simp: YV12_dispatch_def HalfYV12ToRGB32Row_wrote_within
      ScaleYV12ToRGB32Row_wrote_within row_writer_def split: if_splits)

lemma rows_inv_start: "rows_inv m rgb_buf rgb_pitch scaled_width 0 m"
  by (auto simp: rows_inv_def)

lemma rows_inv_step:
  assumes inv: "rows_inv m rgb_buf rgb_pitch scaled_width k mk"
    and k: "0 \<le> k"
    and w: "wrote_within mk t (rgb_buf + k * rgb_pitch) (4 * scaled_width)"
  shows "rows_inv m rgb_buf rgb_pitch scaled_width (k + 1) t"
proof -
  have dom: "(mk a = None) = (m a = None)" for a
    using inv by (rule rows_inv_mapped)
  have a1: "t a = m a"
    if "\<forall>y. 0 \<le> y \<and> y < k + 1 \<longrightarrow>
          a < rgb_buf + y * rgb_pitch \<or> rgb_buf + y * rgb_pitch + 4 * scaled_width \<le> a" for a
  proof -
    have "a < rgb_buf + k * rgb_pitch \<or> rgb_buf + k * rgb_pitch + 4 * scaled_width \<le> a"
      using that k by simp
    then have "t a = mk a"
      using wrote_within_outside [OF w] by simp
    moreover have "mk a = m a"
      using that by (intro rows_inv_outside [OF inv]) auto
    ultimately show ?thesis by simp
  qed
  have a2: "(t a = None) = (m a = None)" for a
    using wrote_within_mapped [OF w, of a] dom [of a] by simp
  have a3: "m a \<noteq> None"
    if "0 \<le> y" "y < k + 1" "rgb_buf + y * rgb_pitch \<le> a"
       "a < rgb_buf + y * rgb_pitch + 4 * scaled_width" for y a
  proof (cases "y = k")
    case True
    then have "mk a \<noteq> None"
      using wrote_within_inside [OF w, of a] that by simp
    then show ?thesis using dom [of a] by simp
  next
    case False
    then have "y < k" using that by simp
    then show ?thesis
      using rows_inv_inside [OF inv, of y a] that by simp
  qed
  show ?thesis
    unfolding rows_inv_def using a1 a2 a3 by blast
qed

lemma rows_loop_inv:
  assumes run: "for_loop body 0 scaled_height m = Inr m'"
    and body: "\<And>y mk t. body y mk = Inr t \<Longrightarrow>
         wrote_within mk t (rgb_buf + y * rgb_pitch) (4 * scaled_width)"
  shows "rows_inv m rgb_buf rgb_pitch scaled_width (max 0 scaled_height) m'"
proof -
  have "\<And>k t t'. 0 \<le> k \<Longrightarrow> k < scaled_height \<Longrightarrow>
      rows_inv m rgb_buf rgb_pitch scaled_width k t \<Longrightarrow> body k t = Inr t' \<Longrightarrow>
      rows_inv m rgb_buf rgb_pitch scaled_width (k + 1) t'"
    using rows_inv_step body by blast
  with rows_inv_start show ?thesis
    by (rule for_loop_invariant [OF run, where I = "rows_inv m rgb_buf rgb_pitch scaled_width"])
qed

lemma ScaleYV12ToRGB32_rows_inv:
  assumes "ScaleYV12ToRGB32 debug conv m y_buf u_buf v_buf rgb_buf width height scaled_width
     scaled_height y_pitch uv_pitch rgb_pitch view_rotate = Inr m'"
    and "row_writer conv"
  shows "rows_inv m rgb_buf rgb_pitch scaled_width (max 0 scaled_height) m'"
proof -
  obtain yb ub vb w h where
    "for_loop (YV12_row conv yb ub vb rgb_buf w h scaled_width scaled_height y_pitch uv_pitch
       rgb_pitch) 0 scaled_height m = Inr m'"
    using assms(1) unfolding ScaleYV12ToRGB32_def Let_def
    by (auto split: prod.splits if_splits)
  then show ?thesis
    by (rule rows_loop_inv)
       (auto simp: YV12_row_def Let_def intro: YV12_dispatch_wrote_within [OF assms(2)])
qed

lemma ScaleYV16ToRGB32_rows_inv:
  assumes "ScaleYV16ToRGB32 debug m y_buf u_buf v_buf rgb_buf width height scaled_width
     scaled_height y_pitch uv_pitch rgb_pitch view_rotate = Inr m'"
  shows "rows_inv m rgb_buf rgb_pitch scaled_width (max 0 scaled_height) m'"
proof -
  obtain yb ub vb w h where
    "for_loop (YV16_row yb ub vb rgb_buf w h scaled_width scaled_height y_pitch uv_pitch
       rgb_pitch) 0 scaled_height m = Inr m'"
    using assms(1) unfolding ScaleYV16ToRGB32_def Let_def
    by (auto split: prod.splits if_splits)
  then show ?thesis
    by (rule rows_loop_inv)
       (auto simp: YV16_row_def Let_def intro: YV16_dispatch_wrote_within)
qed



lemma Inr_projr_fault_of: "fault_of r = None \<Longrightarrow> r = Inr (projr r)"
  by (cases r) (simp_all add: fault_of_def)

lemma spec_ConvertYV12ToRGB32Row_row_writer: "row_writer spec_ConvertYV12ToRGB32Row"
  by (simp add: row_writer_def spec_ConvertYV12ToRGB32Row_def ScaleYV12ToRGB32Row_wrote_within)

section \<open>Pixels\<close>

lemma alpha_word: "(0xff000000 :: u32) = push_bit 24 (mask 8)"
  by (simp add: push_bit_eq_mult mask_eq_exp_minus_1)

lemma packed_bytes:
  fixes b g r :: u8
  shows "spec_packed (ucast b OR push_bit 8 (ucast g) OR push_bit 16 (ucast r) OR 0xff000000)
           (ucast b) (ucast g) (ucast r)"
proof -
  have b: "n < 8" if "bit b n" for n
    using bit_imp_le_length [OF that] by simp
  have g: "n < 8" if "bit g n" for n
    using bit_imp_le_length [OF that] by simp
  have r: "n < 8" if "bit r n" for n
    using bit_imp_le_length [OF that] by simp
  show ?thesis
    unfolding spec_packed_def alpha_word
  proof (intro conjI)
    show "take_bit 8 (ucast b OR push_bit 8 (ucast g) OR push_bit 16 (ucast r) OR
            push_bit 24 (mask 8) :: u32) = ucast b"
      by (rule bit_word_eqI) (auto simp: bit_simps dest: b)
    show "take_bit 8 (drop_bit 8 (ucast b OR push_bit 8 (ucast g) OR push_bit 16 (ucast r) OR
            push_bit 24 (mask 8) :: u32)) = ucast g"
      by (rule bit_word_eqI) (auto simp: bit_simps dest: b g)
    show "take_bit 8 (drop_bit 16 (ucast b OR push_bit 8 (ucast g) OR push_bit 16 (ucast r) OR
            push_bit 24 (mask 8) :: u32)) = ucast r"
      by (rule bit_word_eqI) (auto simp: bit_simps dest: b g r)
    show "drop_bit 24 (ucast b OR push_bit 8 (ucast g) OR push_bit 16 (ucast r) OR
            push_bit 24 (mask 8) :: u32) = 255"
    proof -
      have "(255 :: u32) = mask 8"
        by (simp add: mask_eq_exp_minus_1)
      then show ?thesis
        by (simp only:) (rule bit_word_eqI, auto simp: bit_simps dest: b g r)
    qed
  qed
qed

lemma clip_Inr_byte: "clip v = Inr c \<Longrightarrow> \<exists>b :: u8. c = ucast b"
  by (auto simp: clip_def Let_def split: if_splits)

lemma pixel_tail:
  assumes "and_then (clip A) (\<lambda>b. and_then (clip B) (\<lambda>g. and_then (clip C) (\<lambda>r.
             Inr (b OR push_bit 8 g OR push_bit 16 r OR 0xff000000)))) = Inr p"
  shows "\<exists>b g r. clip A = Inr b \<and> clip B = Inr g \<and> clip C = Inr r \<and> spec_packed p b g r"
proof -
  obtain b g r where c: "clip A = Inr b" "clip B = Inr g" "clip C = Inr r"
    and p: "p = b OR push_bit 8 g OR push_bit 16 r OR 0xff000000"
    using assms by (auto simp: and_then_Inr_iff)
  obtain b' g' r' :: u8 where "b = ucast b'" "g = ucast g'" "r = ucast r'"
    using c clip_Inr_byte by blast
  then have "spec_packed p b g r"
    using packed_bytes [of b' g' r'] p by simp
  then show ?thesis
    using c by blast
qed


lemma rd_Inr_iff: "rd m a = Inr b \<longleftrightarrow> m a = Some b"
  by (simp add: rd_def split: option.splits)

lemma uint_u8_range: "0 \<le> uint (b :: u8) \<and> uint b < 256"
  using uint_bounded [of b] by simp

lemma uint_of_int_u8: "0 \<le> z \<Longrightarrow> z < 256 \<Longrightarrow> uint (word_of_int z :: u8) = z"
  by (simp only: uint_word_of_int) simp

lemma and_15_mod: "(k :: int) AND 15 = k mod 16"
proof -
  have "(15 :: int) = mask 4"
    by (simp add: mask_eq_exp_minus_1)
  then have "k AND 15 = take_bit 4 k"
    by (simp only: take_bit_eq_mask)
  then show ?thesis
    by (simp add: take_bit_eq_mod)
qed

lemma blend_pattern_range: "0 \<le> drop_bit 2 ((k :: int) AND 15) \<and> drop_bit 2 (k AND 15) \<le> 3"
proof -
  have "0 \<le> k mod 16" "k mod 16 < 16"
    by simp_all
  then have "0 \<le> k mod 16 div 4 \<and> k mod 16 div 4 \<le> 3"
    by linarith
  then show ?thesis
    by (simp add: and_15_mod drop_bit_eq_div)
qed

lemma blend_byte:
  fixes Y0 Y1 :: u8
  assumes "0 \<le> sel" "sel \<le> 3"
  shows "uint (if sel = 1 then word_of_int (drop_bit 2 (uint Y0 + uint Y0 + uint Y0 + uint Y1))
               else if sel = 2 then word_of_int (drop_bit 1 (uint Y0 + uint Y1))
               else if sel = 3 then word_of_int (drop_bit 2 (uint Y0 + uint Y1 + uint Y1 + uint Y1))
               else Y0 :: u8)
         = spec_blend sel (uint Y0) (uint Y1)"
proof -
  have r: "0 \<le> uint Y0" "uint Y0 < 256" "0 \<le> uint Y1" "uint Y1 < 256"
    using uint_u8_range by blast+
  consider "sel = 0" | "sel = 1" | "sel = 2" | "sel = 3"
    using assms by linarith
  then show ?thesis
  proof cases
    case 1
    then show ?thesis by (simp add: spec_blend_def)
  next
    case 2
    have "uint (word_of_int ((uint Y0 + uint Y0 + uint Y0 + uint Y1) div 4) :: u8)
          = (uint Y0 + uint Y0 + uint Y0 + uint Y1) div 4"
      using r by (intro uint_of_int_u8) linarith+
    then show ?thesis using 2 by (simp add: spec_blend_def drop_bit_eq_div)
  next
    case 3
    have "uint (word_of_int ((uint Y0 + uint Y1) div 2) :: u8) = (uint Y0 + uint Y1) div 2"
      using r by (intro uint_of_int_u8) linarith+
    then show ?thesis using 3 by (simp add: spec_blend_def drop_bit_eq_div)
  next
    case 4
    have "uint (word_of_int ((uint Y0 + uint Y1 + uint Y1 + uint Y1) div 4) :: u8)
          = (uint Y0 + uint Y1 + uint Y1 + uint Y1) div 4"
      using r by (intro uint_of_int_u8) linarith+
    then show ?thesis using 4 by (simp add: spec_blend_def drop_bit_eq_div)
  qed
qed

lemma ScaleRow_pixel_spec:
  assumes "ScaleRow_pixel m y_buf u_buf v_buf scaled_x = Inr p"
  shows "\<exists>U V Y0 Y1.
           m (u_buf + drop_bit 5 scaled_x) = Some U \<and>
           m (v_buf + drop_bit 5 scaled_x) = Some V \<and>
           m (y_buf + drop_bit 4 scaled_x) = Some Y0 \<and>
           m (y_buf + (drop_bit 4 scaled_x + 1)) = Some Y1 \<and>
           spec_pixel (spec_blend (drop_bit 2 (scaled_x AND 15)) (uint Y0) (uint Y1))
             (uint U) (uint V) p"
proof -
  from assms obtain U V Y0 Y1 where
    rds: "m (u_buf + drop_bit 5 scaled_x) = Some U" "m (v_buf + drop_bit 5 scaled_x) = Some V"
      "m (y_buf + drop_bit 4 scaled_x) = Some Y0" "m (y_buf + (drop_bit 4 scaled_x + 1)) = Some Y1"
    and tail: "and_then
       (clip ((uint (if drop_bit 2 (scaled_x AND 15) = 1
                then word_of_int (drop_bit 2 (uint Y0 + uint Y0 + uint Y0 + uint Y1))
                else if drop_bit 2 (scaled_x AND 15) = 2
                then word_of_int (drop_bit 1 (uint Y0 + uint Y1))
                else if drop_bit 2 (scaled_x AND 15) = 3
                then word_of_int (drop_bit 2 (uint Y0 + uint Y1 + uint Y1 + uint Y1))
                else Y0 :: u8) - 16) * 298 + 128 + (516 * (uint U - 128) + 128)))
       (\<lambda>b. and_then
         (clip ((uint (if drop_bit 2 (scaled_x AND 15) = 1
                then word_of_int (drop_bit 2 (uint Y0 + uint Y0 + uint Y0 + uint Y1))
                else if drop_bit 2 (scaled_x AND 15) = 2
                then word_of_int (drop_bit 1 (uint Y0 + uint Y1))
                else if drop_bit 2 (scaled_x AND 15) = 3
                then word_of_int (drop_bit 2 (uint Y0 + uint Y1 + uint Y1 + uint Y1))
                else Y0 :: u8) - 16) * 298 + 128 +
               (- 100 * (uint U - 128) - 208 * (uint V - 128) + 128)))
         (\<lambda>g. and_then
           (clip ((uint (if drop_bit 2 (scaled_x AND 15) = 1
                then word_of_int (drop_bit 2 (uint Y0 + uint Y0 + uint Y0 + uint Y1))
                else if drop_bit 2 (scaled_x AND 15) = 2
                then word_of_int (drop_bit 1 (uint Y0 + uint Y1))
                else if drop_bit 2 (scaled_x AND 15) = 3
                then word_of_int (drop_bit 2 (uint Y0 + uint Y1 + uint Y1 + uint Y1))
                else Y0 :: u8) - 16) * 298 + 128 + (409 * (uint V - 128) + 128)))
           (\<lambda>r. Inr (b OR push_bit 8 g OR push_bit 16 r OR 0xff000000)))) = Inr p"
    unfolding ScaleRow_pixel_def Let_def and_then_Inr_iff [where r = "rd _ _"] rd_Inr_iff
    by blast
  have "spec_pixel (spec_blend (drop_bit 2 (scaled_x AND 15)) (uint Y0) (uint Y1))
          (uint U) (uint V) p"
    using pixel_tail [OF tail] blend_pattern_range [of scaled_x]
    unfolding spec_pixel_def Let_def
    by (simp only: blend_byte) blast
  then show ?thesis
    using rds by blast
qed

lemma HalfRow_pixel_spec:
  assumes "HalfRow_pixel m y_buf u_buf v_buf x = Inr p"
  shows "\<exists>U V Y0 Y1.
           m (u_buf + x) = Some U \<and> m (v_buf + x) = Some V \<and>
           m (y_buf + 2 * x) = Some Y0 \<and> m (y_buf + (2 * x + 1)) = Some Y1 \<and>
           spec_pixel ((uint Y0 + uint Y1) div 2) (uint U) (uint V) p"
proof -
  from assms obtain U V Y0 Y1 where
    rds: "m (u_buf + x) = Some U" "m (v_buf + x) = Some V"
      "m (y_buf + (x * 2 + 0)) = Some Y0" "m (y_buf + (x * 2 + 1)) = Some Y1"
    and tail: "and_then
       (clip ((drop_bit 1 (uint Y0 + uint Y1) - 16) * 298 + 128 + (516 * (uint U - 128) + 128)))
       (\<lambda>b. and_then
         (clip ((drop_bit 1 (uint Y0 + uint Y1) - 16) * 298 + 128 +
               (- 100 * (uint U - 128) - 208 * (uint V - 128) + 128)))
         (\<lambda>g. and_then
           (clip ((drop_bit 1 (uint Y0 + uint Y1) - 16) * 298 + 128 + (409 * (uint V - 128) + 128)))
           (\<lambda>r. Inr (b OR push_bit 8 g OR push_bit 16 r OR 0xff000000)))) = Inr p"
    unfolding HalfRow_pixel_def Let_def and_then_Inr_iff [where r = "rd _ _"] rd_Inr_iff
    by blast
  have "spec_pixel ((uint Y0 + uint Y1) div 2) (uint U) (uint V) p"
    using pixel_tail [OF tail]
    unfolding spec_pixel_def Let_def drop_bit_eq_div
    by simp blast
  moreover have "y_buf + (x * 2 + 0) = y_buf + 2 * x" "y_buf + (x * 2 + 1) = y_buf + (2 * x + 1)"
    by simp_all
  ultimately show ?thesis
    using rds by metis
qed


lemma ScaleRow_pixel_reads:
  "reads_within (\<lambda>m x. ScaleRow_pixel m y_buf u_buf v_buf (x * dx))
     (\<lambda>x. ScaleRow_reads y_buf u_buf v_buf (x * dx))"
  by (simp add: reads_within_def ScaleRow_reads_def ScaleRow_pixel_def rd_def)

lemma HalfRow_pixel_reads:
  "reads_within (\<lambda>m x. HalfRow_pixel m y_buf u_buf v_buf x) (HalfRow_reads y_buf u_buf v_buf)"
  by (simp add: reads_within_def HalfRow_reads_def HalfRow_pixel_def rd_def)

lemma ScaleYV12ToRGB32Row_pixels:
  assumes run: "ScaleYV12ToRGB32Row m y_buf u_buf v_buf rgb_buf width scaled_width = Inr m'"
    and apart: "ScaleRow_apart y_buf u_buf v_buf rgb_buf width scaled_width"
    and x: "0 \<le> x" "x < scaled_width"
  shows "\<exists>p. ScaleRow_pixel m y_buf u_buf v_buf (ScaleRow_position width scaled_width x) = Inr p \<and>
             stored32 m' (rgb_buf + 4 * x) p"
proof -
  have "write_row (\<lambda>m x. ScaleRow_pixel m y_buf u_buf v_buf (x * cdiv (width * 16) scaled_width))
          m rgb_buf scaled_width = Inr m'"
    using run by (simp add: ScaleYV12ToRGB32Row_write_row split: if_splits)
  moreover have "\<forall>k. 0 \<le> k \<and> k < scaled_width \<longrightarrow>
      ScaleRow_reads y_buf u_buf v_buf (k * cdiv (width * 16) scaled_width) \<inter>
        {rgb_buf ..< rgb_buf + 4 * scaled_width} = {}"
    using apart by (simp add: ScaleRow_apart_def)
  ultimately show ?thesis
    unfolding ScaleRow_position_def
    using write_row_pixels [OF ScaleRow_pixel_reads [of y_buf u_buf v_buf
        "cdiv (width * 16) scaled_width"], of scaled_width rgb_buf m m' x] x
    by simp
qed

lemma HalfYV12ToRGB32Row_pixels:
  assumes run: "HalfYV12ToRGB32Row m y_buf u_buf v_buf rgb_buf width = Inr m'"
    and apart: "HalfRow_apart y_buf u_buf v_buf rgb_buf width"
    and x: "0 \<le> x" "x < width"
  shows "\<exists>p. HalfRow_pixel m y_buf u_buf v_buf x = Inr p \<and> stored32 m' (rgb_buf + 4 * x) p"
proof -
  have "write_row (\<lambda>m x. HalfRow_pixel m y_buf u_buf v_buf x) m rgb_buf width = Inr m'"
    using run by (simp add: HalfYV12ToRGB32Row_write_row)
  moreover have "\<forall>k. 0 \<le> k \<and> k < width \<longrightarrow>
      HalfRow_reads y_buf u_buf v_buf k \<inter> {rgb_buf ..< rgb_buf + 4 * width} = {}"
    using apart by (simp add: HalfRow_apart_def)
  ultimately show ?thesis
    using write_row_pixels [OF HalfRow_pixel_reads [of y_buf u_buf v_buf],
        of width rgb_buf m m' x] x
    by simp
qed

lemma cdiv_pos_divisor:
  "0 < b \<Longrightarrow> cdiv a b = (if 0 \<le> a then a div b else - (- a div b))"
  by (cases "a = 0") (auto simp: cdiv_def sgn_if)









section \<open>The claims\<close>




text \<open>
  C2. The claim holds of no build: the row converters pass \<^verbatim>\<open>clip\<close> values outside
  the range its table covers. For \<open>Y = U = V = 0\<close> the blue term is
  \<open>(0 - 16) * 298 + 128 + 516 * (0 - 128) + 128 = - 70560\<close>, whose table index
  \<open>(- 70560 >> 8) + 128\<close> is \<open>- 148\<close>: both row converters read before the first
  entry of the table. For \<open>Y = U = V = 255\<close> the index is 663, past the last entry.
\<close>

theorem clip_index_leaves_the_table:
  "drop_bit 8 (((uint (0 :: u8) - 16) * 298 + 128) + (516 * (uint (0 :: u8) - 128) + 128))
     + kClipOverflow = - 148 \<and>
   drop_bit 8 (((uint (255 :: u8) - 16) * 298 + 128) + (516 * (uint (255 :: u8) - 128) + 128))
     + kClipOverflow = 663 \<and>
   HalfYV12ToRGB32Row
     (buffer 0 [0, 0] ++ buffer 100 [0] ++ buffer 200 [0] ++ buffer 300 (replicate 4 0))
     0 100 200 300 1 = Inl ClipIndexOutOfRange \<and>
   ScaleYV12ToRGB32Row
     (buffer 0 [0, 0] ++ buffer 100 [0] ++ buffer 200 [0] ++ buffer 300 (replicate 4 0))
     0 100 200 300 2 1 = Inl ClipIndexOutOfRange \<and>
   ScaleYV12ToRGB32Row
     (buffer 0 [255, 255] ++ buffer 100 [255] ++ buffer 200 [255] ++
      buffer 300 (replicate 4 0))
     0 100 200 300 2 1 = Inl ClipIndexOutOfRange"
  by (simp only: eq_Inl_fault_of) code_simp






text \<open>
  C4. A 4 by 2 frame whose luma rows are both 16 16 16 235, with grey chroma, scaled
  to 3 by 2. With \<^verbatim>\<open>ROTATE_0\<close> each output row is dark, dark, mid grey (channel values 1,
  1, 127), so the reversed output starts with mid grey. With \<^verbatim>\<open>ROTATE_180\<close> and buffers
  that hold the planes and nothing else, the call reads outside the planes (the luma
  sample after the last one of the last row, at the first column; the chroma sample
  before the first one, at the last column). With one more byte on each side of every
  plane the call returns, and each output row is white, dark, dark (255, 1, 1): its
  first pixel is the last luma sample alone, where the reversed \<^verbatim>\<open>ROTATE_0\<close> output
  has the blend of the last two.
\<close>

theorem rotate_180_is_not_the_reversed_rotate_0:
  "dump 300 24
     (ScaleYV12ToRGB32 False spec_ConvertYV12ToRGB32Row
        (buffer 0 [16, 16, 16, 235, 16, 16, 16, 235] ++ buffer 100 [128, 128] ++
         buffer 200 [128, 128] ++ buffer 300 (replicate 24 0))
        0 100 200 300 4 2 3 2 4 2 12 ROTATE_0)
   = Inr [Some 1, Some 1, Some 1, Some 255, Some 1, Some 1, Some 1, Some 255,
          Some 127, Some 127, Some 127, Some 255,
          Some 1, Some 1, Some 1, Some 255, Some 1, Some 1, Some 1, Some 255,
          Some 127, Some 127, Some 127, Some 255] \<and>
   ScaleYV12ToRGB32 False spec_ConvertYV12ToRGB32Row
        (buffer 0 [16, 16, 16, 235, 16, 16, 16, 235] ++ buffer 100 [128, 128] ++
         buffer 200 [128, 128] ++ buffer 300 (replicate 24 0))
        0 100 200 300 4 2 3 2 4 2 12 ROTATE_180
   = Inl ReadOutOfBounds \<and>
   dump 300 24
     (ScaleYV12ToRGB32 False spec_ConvertYV12ToRGB32Row
        (buffer (- 1) [0, 16, 16, 16, 235, 16, 16, 16, 235, 0] ++
         buffer 99 [128, 128, 128, 128] ++ buffer 199 [128, 128, 128, 128] ++
         buffer 300 (replicate 24 0))
        0 100 200 300 4 2 3 2 4 2 12 ROTATE_180)
   = Inr [Some 255, Some 255, Some 255, Some 255, Some 1, Some 1, Some 1, Some 255,
          Some 1, Some 1, Some 1, Some 255,
          Some 255, Some 255, Some 255, Some 255, Some 1, Some 1, Some 1, Some 255,
          Some 1, Some 1, Some 1, Some 255]"
  by (simp only: eq_Inl_fault_of) code_simp

text \<open>
  C5. When a row converter returns and the destination row is apart from the samples it
  reads, the pixel \<open>p\<close> it leaves at every column \<open>x\<close> is the colour transform of the
  samples of that column: with \<open>d = U - 128\<close> and \<open>e = V - 128\<close>, \<open>cb = 516 d + 128\<close>,
  \<open>cg = - 100 d - 208 e + 128\<close>, \<open>cr = 409 e + 128\<close> and \<open>Y' = (luma - 16) * 298 + 128\<close>,
  the channels are \<open>R = clip(Y' + cr)\<close>, \<open>G = clip(Y' + cg)\<close>, \<open>B = clip(Y' + cb)\<close>, and
  \<open>p\<close> has \<open>B\<close> in bits 0 to 7, \<open>G\<close> in bits 8 to 15, \<open>R\<close> in bits 16 to 23 and 255 in
  the alpha byte. The luma value is the blend of two samples in the general converter
  and the mean of the pair in the half-rate converter.
\<close>

theorem every_pixel_is_the_colour_transform:
  "(ScaleYV12ToRGB32Row m y_buf u_buf v_buf rgb_buf width scaled_width = Inr m' \<and>
    ScaleRow_apart y_buf u_buf v_buf rgb_buf width scaled_width \<and> 0 \<le> x \<and> x < scaled_width \<longrightarrow>
    (\<exists>U V Y0 Y1 p.
       m (u_buf + drop_bit 5 (ScaleRow_position width scaled_width x)) = Some U \<and>
       m (v_buf + drop_bit 5 (ScaleRow_position width scaled_width x)) = Some V \<and>
       m (y_buf + drop_bit 4 (ScaleRow_position width scaled_width x)) = Some Y0 \<and>
       m (y_buf + (drop_bit 4 (ScaleRow_position width scaled_width x) + 1)) = Some Y1 \<and>
       stored32 m' (rgb_buf + 4 * x) p \<and>
       spec_pixel
         (spec_blend (drop_bit 2 (ScaleRow_position width scaled_width x AND 15))
            (uint Y0) (uint Y1))
         (uint U) (uint V) p)) \<and>
   (HalfYV12ToRGB32Row m y_buf u_buf v_buf rgb_buf width = Inr m' \<and>
    HalfRow_apart y_buf u_buf v_buf rgb_buf width \<and> 0 \<le> x \<and> x < width \<longrightarrow>
    (\<exists>U V Y0 Y1 p.
       m (u_buf + x) = Some U \<and> m (v_buf + x) = Some V \<and>
       m (y_buf + 2 * x) = Some Y0 \<and> m (y_buf + (2 * x + 1)) = Some Y1 \<and>
       stored32 m' (rgb_buf + 4 * x) p \<and>
       spec_pixel ((uint Y0 + uint Y1) div 2) (uint U) (uint V) p))"
proof (intro conjI impI; elim conjE)
  assume "ScaleYV12ToRGB32Row m y_buf u_buf v_buf rgb_buf width scaled_width = Inr m'"
    "ScaleRow_apart y_buf u_buf v_buf rgb_buf width scaled_width" "0 \<le> x" "x < scaled_width"
  then obtain p where
    p: "ScaleRow_pixel m y_buf u_buf v_buf (ScaleRow_position width scaled_width x) = Inr p"
      "stored32 m' (rgb_buf + 4 * x) p"
    using ScaleYV12ToRGB32Row_pixels by blast
  show "\<exists>U V Y0 Y1 p.
       m (u_buf + drop_bit 5 (ScaleRow_position width scaled_width x)) = Some U \<and>
       m (v_buf + drop_bit 5 (ScaleRow_position width scaled_width x)) = Some V \<and>
       m (y_buf + drop_bit 4 (ScaleRow_position width scaled_width x)) = Some Y0 \<and>
       m (y_buf + (drop_bit 4 (ScaleRow_position width scaled_width x) + 1)) = Some Y1 \<and>
       stored32 m' (rgb_buf + 4 * x) p \<and>
       spec_pixel
         (spec_blend (drop_bit 2 (ScaleRow_position width scaled_width x AND 15))
            (uint Y0) (uint Y1))
         (uint U) (uint V) p"
    using ScaleRow_pixel_spec [OF p(1)] p(2) by blast
next
  assume "HalfYV12ToRGB32Row m y_buf u_buf v_buf rgb_buf width = Inr m'"
    "HalfRow_apart y_buf u_buf v_buf rgb_buf width" "0 \<le> x" "x < width"
  then obtain p where
    p: "HalfRow_pixel m y_buf u_buf v_buf x = Inr p" "stored32 m' (rgb_buf + 4 * x) p"
    using HalfYV12ToRGB32Row_pixels by blast
  show "\<exists>U V Y0 Y1 p.
       m (u_buf + x) = Some U \<and> m (v_buf + x) = Some V \<and>
       m (y_buf + 2 * x) = Some Y0 \<and> m (y_buf + (2 * x + 1)) = Some Y1 \<and>
       stored32 m' (rgb_buf + 4 * x) p \<and>
       spec_pixel ((uint Y0 + uint Y1) div 2) (uint U) (uint V) p"
    using HalfRow_pixel_spec [OF p(1)] p(2) by blast
qed


theorem every_pixel_is_the_colour_transform_witness:
  "ScaleYV12ToRGB32Row
     (buffer 0 [16, 16, 16, 235] ++ buffer 100 [128, 128] ++ buffer 200 [128, 128] ++
      buffer 300 (replicate 12 0)) 0 100 200 300 4 3 =
   Inr (projr (ScaleYV12ToRGB32Row
     (buffer 0 [16, 16, 16, 235] ++ buffer 100 [128, 128] ++ buffer 200 [128, 128] ++
      buffer 300 (replicate 12 0)) 0 100 200 300 4 3)) \<and>
   ScaleRow_apart 0 100 200 300 4 3 \<and>
   (\<exists>p. stored32 (projr (ScaleYV12ToRGB32Row
            (buffer 0 [16, 16, 16, 235] ++ buffer 100 [128, 128] ++ buffer 200 [128, 128] ++
             buffer 300 (replicate 12 0)) 0 100 200 300 4 3)) (300 + 4 * 2) p \<and>
        spec_pixel (spec_blend 2 16 235) 128 128 p) \<and>
   HalfYV12ToRGB32Row
     (buffer 0 [16, 16, 16, 235] ++ buffer 100 [128, 128] ++ buffer 200 [128, 128] ++
      buffer 300 (replicate 12 0)) 0 100 200 300 2 =
   Inr (projr (HalfYV12ToRGB32Row
     (buffer 0 [16, 16, 16, 235] ++ buffer 100 [128, 128] ++ buffer 200 [128, 128] ++
      buffer 300 (replicate 12 0)) 0 100 200 300 2)) \<and>
   HalfRow_apart 0 100 200 300 2 \<and>
   (\<exists>p. stored32 (projr (HalfYV12ToRGB32Row
            (buffer 0 [16, 16, 16, 235] ++ buffer 100 [128, 128] ++ buffer 200 [128, 128] ++
             buffer 300 (replicate 12 0)) 0 100 200 300 2)) (300 + 4 * 1) p \<and>
        spec_pixel ((16 + 235) div 2) 128 128 p)"
proof -
  let ?M = "buffer 0 [16, 16, 16, 235] ++ buffer 100 [128, 128] ++ buffer 200 [128, 128] ++
      buffer 300 (replicate 12 0)"
  let ?s = "ScaleYV12ToRGB32Row ?M 0 100 200 300 4 3"
  let ?h = "HalfYV12ToRGB32Row ?M 0 100 200 300 2"
  have "fault_of ?s = None"
    by code_simp
  then have s: "?s = Inr (projr ?s)"
    by (rule Inr_projr_fault_of)
  have "fault_of ?h = None"
    by code_simp
  then have h: "?h = Inr (projr ?h)"
    by (rule Inr_projr_fault_of)
  have dx: "cdiv (4 * 16) 3 = 21" "cdiv 64 3 = 21"
    by code_simp+
  have sa: "ScaleRow_apart 0 100 200 300 4 3"
    unfolding ScaleRow_apart_def ScaleRow_reads_def dx drop_bit_eq_div
    by auto
  have ha: "HalfRow_apart 0 100 200 300 2"
    unfolding HalfRow_apart_def HalfRow_reads_def
    by auto
  have pos: "ScaleRow_position 4 3 2 = 42"
    by (simp add: ScaleRow_position_def dx)
  have mem: "?M 101 = Some 128" "?M 201 = Some 128" "?M 2 = Some 16" "?M 3 = Some 235"
    by (simp_all add: buffer_def map_add_def)
  have "\<exists>U V Y0 Y1 p.
       ?M (100 + drop_bit 5 (ScaleRow_position 4 3 2)) = Some U \<and>
       ?M (200 + drop_bit 5 (ScaleRow_position 4 3 2)) = Some V \<and>
       ?M (0 + drop_bit 4 (ScaleRow_position 4 3 2)) = Some Y0 \<and>
       ?M (0 + (drop_bit 4 (ScaleRow_position 4 3 2) + 1)) = Some Y1 \<and>
       stored32 (projr ?s) (300 + 4 * 2) p \<and>
       spec_pixel (spec_blend (drop_bit 2 (ScaleRow_position 4 3 2 AND 15)) (uint Y0) (uint Y1))
         (uint U) (uint V) p"
    using every_pixel_is_the_colour_transform
      [where m = ?M and y_buf = 0 and u_buf = 100 and v_buf = 200 and rgb_buf = 300
        and width = 4 and scaled_width = 3 and m' = "projr ?s" and x = 2] s sa
    by simp
  then have a: "\<exists>p. stored32 (projr ?s) (300 + 4 * 2) p \<and> spec_pixel (spec_blend 2 16 235) 128 128 p"
    unfolding pos by (simp add: drop_bit_eq_div and_15_mod mem)
  have "\<exists>U V Y0 Y1 p.
       ?M (100 + 1) = Some U \<and> ?M (200 + 1) = Some V \<and>
       ?M (0 + 2 * 1) = Some Y0 \<and> ?M (0 + (2 * 1 + 1)) = Some Y1 \<and>
       stored32 (projr ?h) (300 + 4 * 1) p \<and>
       spec_pixel ((uint Y0 + uint Y1) div 2) (uint U) (uint V) p"
    using every_pixel_is_the_colour_transform
      [where m = ?M and y_buf = 0 and u_buf = 100 and v_buf = 200 and rgb_buf = 300
        and width = 2 and m' = "projr ?h" and x = 1] h ha
    by simp
  then have b: "\<exists>p. stored32 (projr ?h) (300 + 4 * 1) p \<and> spec_pixel ((16 + 235) div 2) 128 128 p"
    by (simp add: mem)
  show ?thesis
    using s sa a h ha b by blast
qed


text \<open>
  C6, as amended. In the general row converter the source position of the destination
  column \<open>x\<close> is \<open>x\<close> times the quotient \<open>width * 16 / scaled_width\<close> of C, which truncates
  towards zero: the floor when \<open>width\<close> is not negative, and minus the floor of
  \<open>- width * 16 / scaled_width\<close> when it is (the frame scalers negate the width for the
  rotations that start at the right side). The chroma samples are read at \<open>position >>
  5\<close>, the luma samples at \<open>position >> 4\<close> and the next index, and the luma value is
  their blend with the weights 100/0, 75/25, 50/50 or 25/75 that \<open>(position & 15) >> 2\<close>
  selects.
\<close>

theorem general_row_positions_and_blend:
  assumes "ScaleYV12ToRGB32Row m y_buf u_buf v_buf rgb_buf width scaled_width = Inr m'"
    and "ScaleRow_apart y_buf u_buf v_buf rgb_buf width scaled_width"
    and "0 \<le> x" "x < scaled_width"
  shows "\<exists>pos U V Y0 Y1 p.
       pos = x * (if 0 \<le> width then width * 16 div scaled_width
                  else - (- width * 16 div scaled_width)) \<and>
       m (u_buf + drop_bit 5 pos) = Some U \<and>
       m (v_buf + drop_bit 5 pos) = Some V \<and>
       m (y_buf + drop_bit 4 pos) = Some Y0 \<and>
       m (y_buf + (drop_bit 4 pos + 1)) = Some Y1 \<and>
       stored32 m' (rgb_buf + 4 * x) p \<and>
       spec_pixel (spec_blend (drop_bit 2 (pos AND 15)) (uint Y0) (uint Y1)) (uint U) (uint V) p"
proof -
  have "0 < scaled_width"
    using assms(3,4) by simp
  then have pos: "ScaleRow_position width scaled_width x =
      x * (if 0 \<le> width then width * 16 div scaled_width else - (- width * 16 div scaled_width))"
    by (simp add: ScaleRow_position_def cdiv_pos_divisor)
  obtain p where
    p: "ScaleRow_pixel m y_buf u_buf v_buf (ScaleRow_position width scaled_width x) = Inr p"
      "stored32 m' (rgb_buf + 4 * x) p"
    using ScaleYV12ToRGB32Row_pixels [OF assms] by blast
  show ?thesis
    using ScaleRow_pixel_spec [OF p(1)] p(2) unfolding pos by blast
qed

theorem general_row_positions_and_blend_witness:
  "ScaleYV12ToRGB32Row
     (buffer 0 [16, 235, 16, 16, 16, 0] ++ buffer 99 [128, 128, 128, 128] ++
      buffer 199 [128, 128, 128, 128] ++ buffer 300 (replicate 12 0))
     4 101 201 300 (- 5) 3 =
   Inr (projr (ScaleYV12ToRGB32Row
     (buffer 0 [16, 235, 16, 16, 16, 0] ++ buffer 99 [128, 128, 128, 128] ++
      buffer 199 [128, 128, 128, 128] ++ buffer 300 (replicate 12 0))
     4 101 201 300 (- 5) 3)) \<and>
   ScaleRow_apart 4 101 201 300 (- 5) 3 \<and>
   (\<exists>p. stored32 (projr (ScaleYV12ToRGB32Row
            (buffer 0 [16, 235, 16, 16, 16, 0] ++ buffer 99 [128, 128, 128, 128] ++
             buffer 199 [128, 128, 128, 128] ++ buffer 300 (replicate 12 0))
            4 101 201 300 (- 5) 3)) (300 + 4 * 2) p \<and>
        spec_pixel (spec_blend 3 16 235) 128 128 p)"
proof -
  let ?M = "buffer 0 [16, 235, 16, 16, 16, 0] ++ buffer 99 [128, 128, 128, 128] ++
      buffer 199 [128, 128, 128, 128] ++ buffer 300 (replicate 12 0)"
  let ?s = "ScaleYV12ToRGB32Row ?M 4 101 201 300 (- 5) 3"
  have "fault_of ?s = None"
    by code_simp
  then have s: "?s = Inr (projr ?s)"
    by (rule Inr_projr_fault_of)
  have dx: "cdiv (- 5 * 16) 3 = - 26" "cdiv (- 80) 3 = - 26"
    by code_simp+
  have sa: "ScaleRow_apart 4 101 201 300 (- 5) 3"
    unfolding ScaleRow_apart_def ScaleRow_reads_def dx drop_bit_eq_div
    by auto
  have mem: "?M 99 = Some 128" "?M 199 = Some 128" "?M 0 = Some 16" "?M 1 = Some 235"
    by (simp_all add: buffer_def map_add_def)
  have "\<exists>pos U V Y0 Y1 p.
       pos = 2 * (if (0 :: int) \<le> - 5 then - 5 * 16 div 3 else - (- (- 5) * 16 div 3)) \<and>
       ?M (101 + drop_bit 5 pos) = Some U \<and>
       ?M (201 + drop_bit 5 pos) = Some V \<and>
       ?M (4 + drop_bit 4 pos) = Some Y0 \<and>
       ?M (4 + (drop_bit 4 pos + 1)) = Some Y1 \<and>
       stored32 (projr ?s) (300 + 4 * 2) p \<and>
       spec_pixel (spec_blend (drop_bit 2 (pos AND 15)) (uint Y0) (uint Y1)) (uint U) (uint V) p"
    by (rule general_row_positions_and_blend [OF s sa]) simp_all
  then have "\<exists>p. stored32 (projr ?s) (300 + 4 * 2) p \<and> spec_pixel (spec_blend 3 16 235) 128 128 p"
    by (simp add: drop_bit_eq_div and_15_mod mem)
  then show ?thesis
    using s sa by blast
qed

text \<open>
  C6 as the specification states it fails for the width \<open>- 5\<close> that \<^verbatim>\<open>MIRROR_ROTATE_0\<close>
  hands the row converter for a frame 5 wide, scaled to 3: the step is \<open>- 80 / 3 = - 26\<close>
  in C, and the floor is \<open>- 27\<close>. At column 2 the position is \<open>- 52\<close>, not \<open>- 54\<close>; the
  blend pattern is 3, not 2, and the pixel has the channel value 191 where the claimed
  position gives 127.
\<close>

theorem position_is_not_the_floor_counterexample:
  "ScaleRow_position (- 5) 3 2 = - 52 \<and>
   spec_position (- 5) 3 2 = - 54 \<and>
   map_sum id (\<lambda>s. snd (snd s))
     (for_loop (ScaleRow_step 4 101 201 (cdiv (- 5 * 16) 3)) 0 2
        (buffer 0 [16, 235, 16, 16, 16, 0] ++ buffer 99 [128, 128, 128, 128] ++
         buffer 199 [128, 128, 128, 128] ++ buffer 300 (replicate 12 0), 300, 0))
     = Inr (- 52) \<and>
   dump 308 4
     (ScaleYV12ToRGB32Row
        (buffer 0 [16, 235, 16, 16, 16, 0] ++ buffer 99 [128, 128, 128, 128] ++
         buffer 199 [128, 128, 128, 128] ++ buffer 300 (replicate 12 0))
        4 101 201 300 (- 5) 3)
     = Inr [Some 191, Some 191, Some 191, Some 255] \<and>
   dump 308 4
     (ScaleYV12ToRGB32 False spec_ConvertYV12ToRGB32Row
        (buffer 0 [16, 235, 16, 16, 16, 0] ++ buffer 99 [128, 128, 128, 128] ++
         buffer 199 [128, 128, 128, 128] ++ buffer 300 (replicate 12 0))
        0 100 200 300 5 1 3 1 5 3 12 MIRROR_ROTATE_0)
     = Inr [Some 191, Some 191, Some 191, Some 255] \<and>
   ScaleRow_pixel
     (buffer 0 [16, 235, 16, 16, 16, 0] ++ buffer 99 [128, 128, 128, 128] ++
      buffer 199 [128, 128, 128, 128] ++ buffer 300 (replicate 12 0))
     4 101 201 (spec_position (- 5) 3 2) = Inr 0xFF7F7F7F"
  by code_simp

text \<open>
  C7, as amended. For every signed 8.8 value \<open>v\<close> in the range the table covers,
  \<open>-128 * 256 \<le> v < 384 * 256\<close>, \<^verbatim>\<open>clip(v)\<close> is \<open>clamp(floor(v / 256), 0, 255)\<close>: the shift
  by 8 rounds down. Rounding to nearest is what the callers get by adding 128 to
  every colour term before they call \<^verbatim>\<open>clip\<close>.
\<close>

theorem clip_clamps_the_floor:
  "- 128 * 256 \<le> v \<Longrightarrow> v < 384 * 256 \<Longrightarrow>
   clip v = Inr (word_of_int (max 0 (min 255 (v div 256))))"
  by (rule clip_floor)

theorem clip_clamps_the_floor_witness:
  "- 128 * 256 \<le> (200 :: int) \<and> (200 :: int) < 384 * 256 \<and> clip 200 = Inr 0"
  using clip_clamps_the_floor [of 200] by simp

text \<open>
  C7 as the specification states it fails at \<open>v = 200\<close>: \<open>200 / 256\<close> rounds to 1, and
  \<^verbatim>\<open>clip(200)\<close> is 0.
\<close>

theorem clip_does_not_round_counterexample:
  "- 128 * 256 \<le> (200 :: int) \<and> (200 :: int) < 384 * 256 \<and>
   spec_clip 200 = 1 \<and> clip 200 = Inr 0 \<and> clip 200 \<noteq> Inr (word_of_int (spec_clip 200))"
proof -
  have "spec_clip 200 = 1"
    by (simp add: spec_clip_def round_def)
  moreover have "clip 200 = Inr 0"
    using clip_floor [of 200] by simp
  ultimately show ?thesis
    by simp
qed

text \<open>
  C8. With \<open>scaled_width = width\<close> the step is 16 and the last column reads the luma
  samples \<open>width - 1\<close> and \<open>width\<close>: the second is one past the row. A row of exactly
  two luma samples converted to two pixels faults; the same row with a third sample
  does not. \<^verbatim>\<open>ScaleYV16ToRGB32\<close> calls the general row converter at the identity
  ratio, so a 2 by 1 frame in buffers of exactly its size faults too.
\<close>

theorem lookahead_reads_past_the_row:
  "drop_bit 4 ((2 - 1) * cdiv (2 * 16) 2) + 1 = (2 :: int) \<and>
   ScaleYV12ToRGB32Row
     (buffer 0 [128, 128] ++ buffer 100 [128] ++ buffer 200 [128] ++
      buffer 300 (replicate 8 0))
     0 100 200 300 2 2 = Inl ReadOutOfBounds \<and>
   ScaleYV12ToRGB32Row
     (buffer 0 [128, 128, 128] ++ buffer 100 [128] ++ buffer 200 [128] ++
      buffer 300 (replicate 8 0))
     0 100 200 300 2 2 \<noteq> Inl ReadOutOfBounds \<and>
   ScaleYV16ToRGB32 False
     (buffer 0 [128, 128] ++ buffer 100 [128] ++ buffer 200 [128] ++
      buffer 300 (replicate 8 0))
     0 100 200 300 2 1 2 1 2 1 8 ROTATE_0 = Inl ReadOutOfBounds"
  by (simp only: eq_Inl_fault_of) code_simp





text \<open>
  C10. When a frame scaler returns, every byte of the memory outside the \<open>4 *
  scaled_width\<close> bytes at \<open>rgb_buf + y * rgb_pitch\<close> of the destination rows \<open>y\<close> in \<open>[0,
  scaled_height)\<close> is what it was before the call: the padding of the output rows,
  and the source planes wherever they do not overlap those bytes. Every byte of
  those rows belongs to the output buffer, before and after. For the 4:2:0 scaler
  this rests on \<^verbatim>\<open>ConvertYV12ToRGB32Row\<close> writing its own row only.
\<close>

theorem frame_scalers_write_only_their_rows:
  assumes "ScaleYV12ToRGB32 debug conv m y_buf u_buf v_buf rgb_buf width height scaled_width
             scaled_height y_pitch uv_pitch rgb_pitch view_rotate = Inr m' \<and> row_writer conv
           \<or> ScaleYV16ToRGB32 debug m y_buf u_buf v_buf rgb_buf width height scaled_width
             scaled_height y_pitch uv_pitch rgb_pitch view_rotate = Inr m'"
  shows "((\<forall>y. 0 \<le> y \<and> y < scaled_height \<longrightarrow>
             a < rgb_buf + y * rgb_pitch \<or> rgb_buf + y * rgb_pitch + 4 * scaled_width \<le> a)
          \<longrightarrow> m' a = m a) \<and>
         ((\<exists>y. 0 \<le> y \<and> y < scaled_height \<and>
             rgb_buf + y * rgb_pitch \<le> a \<and> a < rgb_buf + y * rgb_pitch + 4 * scaled_width)
          \<longrightarrow> m a \<noteq> None \<and> m' a \<noteq> None)"
proof -
  have "rows_inv m rgb_buf rgb_pitch scaled_width (max 0 scaled_height) m'"
    using assms
  proof (elim disjE conjE)
    assume "ScaleYV12ToRGB32 debug conv m y_buf u_buf v_buf rgb_buf width height scaled_width
      scaled_height y_pitch uv_pitch rgb_pitch view_rotate = Inr m'" "row_writer conv"
    then show ?thesis
      by (rule ScaleYV12ToRGB32_rows_inv)
  next
    assume "ScaleYV16ToRGB32 debug m y_buf u_buf v_buf rgb_buf width height scaled_width
      scaled_height y_pitch uv_pitch rgb_pitch view_rotate = Inr m'"
    then show ?thesis
      by (rule ScaleYV16ToRGB32_rows_inv)
  qed
  then show ?thesis
    unfolding rows_inv_def by (auto simp: max_def split: if_splits)
qed


theorem frame_scalers_write_only_their_rows_witness:
  "projr (ScaleYV16ToRGB32 False
       (buffer 0 [16, 16, 235, 235] ++ buffer 100 [128, 128] ++ buffer 200 [128, 128] ++
        buffer 300 (replicate 16 7))
       0 100 200 300 2 2 1 2 2 1 8 ROTATE_0) 304 = Some 7 \<and>
   projr (ScaleYV12ToRGB32 False spec_ConvertYV12ToRGB32Row
       (buffer 0 [16, 16, 235, 235] ++ buffer 100 [128] ++ buffer 200 [128] ++
        buffer 300 (replicate 16 7))
       0 100 200 300 2 2 1 2 2 1 8 ROTATE_0) 2 = Some 235 \<and>
   dump 300 16 (ScaleYV16ToRGB32 False
       (buffer 0 [16, 16, 235, 235] ++ buffer 100 [128, 128] ++ buffer 200 [128, 128] ++
        buffer 300 (replicate 16 7))
       0 100 200 300 2 2 1 2 2 1 8 ROTATE_0) =
     Inr [Some 1, Some 1, Some 1, Some 255, Some 7, Some 7, Some 7, Some 7,
          Some 255, Some 255, Some 255, Some 255, Some 7, Some 7, Some 7, Some 7]"
proof -
  let ?M16 = "buffer 0 [16, 16, 235, 235] ++ buffer 100 [128, 128] ++ buffer 200 [128, 128] ++
        buffer 300 (replicate 16 7)"
  let ?M12 = "buffer 0 [16, 16, 235, 235] ++ buffer 100 [128] ++ buffer 200 [128] ++
        buffer 300 (replicate 16 7)"
  let ?r16 = "ScaleYV16ToRGB32 False ?M16 0 100 200 300 2 2 1 2 2 1 8 ROTATE_0"
  let ?r12 = "ScaleYV12ToRGB32 False spec_ConvertYV12ToRGB32Row ?M12 0 100 200 300 2 2 1 2 2 1 8 ROTATE_0"
  have "fault_of ?r16 = None"
    by code_simp
  then have run16: "?r16 = Inr (projr ?r16)"
    by (rule Inr_projr_fault_of)
  have "fault_of ?r12 = None"
    by code_simp
  then have run12: "?r12 = Inr (projr ?r12)"
    by (rule Inr_projr_fault_of)
  have pad: "\<forall>y. 0 \<le> y \<and> y < 2 \<longrightarrow> (304 :: int) < 300 + y * 8 \<or> 300 + y * 8 + 4 * 1 \<le> 304"
    by auto
  have src: "\<forall>y. 0 \<le> y \<and> y < 2 \<longrightarrow> (2 :: int) < 300 + y * 8 \<or> 300 + y * 8 + 4 * 1 \<le> 2"
    by auto
  have "projr ?r16 304 = ?M16 304"
    using frame_scalers_write_only_their_rows
      [where a = 304 and m' = "projr ?r16" and m = ?M16 and rgb_buf = 300 and rgb_pitch = 8
        and scaled_width = 1 and scaled_height = 2, OF disjI2, OF run16] pad
    by blast
  moreover have "?M16 304 = Some 7"
    by code_simp
  moreover have "projr ?r12 2 = ?M12 2"
    using frame_scalers_write_only_their_rows
      [where a = 2 and m' = "projr ?r12" and m = ?M12 and rgb_buf = 300 and rgb_pitch = 8
        and scaled_width = 1 and scaled_height = 2, OF disjI1, OF conjI,
        OF run12 spec_ConvertYV12ToRGB32Row_row_writer] src
    by blast
  moreover have "?M12 2 = Some 235"
    by code_simp
  moreover have "dump 300 16 ?r16 =
     Inr [Some 1, Some 1, Some 1, Some 255, Some 7, Some 7, Some 7, Some 7,
          Some 255, Some 255, Some 255, Some 255, Some 7, Some 7, Some 7, Some 7]"
    by code_simp
  ultimately show ?thesis
    by simp
qed

end
